theory Spec2Isabelle
  imports Main "HOL-Library.Word"
begin

unbundle bit_operations_syntax

section \<open>Data model\<close>

text \<open>
  A one-dimensional integer tensor is the list of the signed values of its elements.
  The tensors that hold node ids keep their dtype as well: \<open>sampled_subgraph.py\<close> hands
  it on (\<open>indices.dtype\<close> in \<open>_to_reverse_ids\<close>) and computes in it (the shift
  \<open>s << 32\<close> of both \<open>_exclude_homo_edges\<close> functions is done in the dtype of \<open>s\<close>). The
  dtypes of node ids are \<open>torch.int32\<close> and \<open>torch.int64\<close>. Of the other tensors
  (\<open>indptr\<close>, the edge ids, the retain index) the code reads the values only.
\<close>

type_synonym tensor = "int list"

datatype dtype = Int32 | Int64

datatype id_tensor = IdTensor (dtype: dtype) (vals: tensor)

text \<open>The exceptions the modelled code can raise. An assertion carries its message.\<close>

datatype error =
    AssertionError string
  | NotImplementedError
  | IndexError
  | KeyError
  | RuntimeError
  | TypeError
  | AttributeError

text \<open>\<open>CSCFormatBase(indptr=..., indices=...)\<close>.\<close>

record CSCFormatBase =
  indptr :: tensor
  indices :: id_tensor

text \<open>
  Every field of a sampled subgraph is either one value (homogeneous graph) or a \<open>dict\<close>
  from a type name to a value (heterogeneous graph). A Python \<open>dict\<close> is an association
  list in insertion order; \<open>d[k]\<close> and \<open>d.get(k)\<close> are \<open>map_of d k\<close>.
\<close>

datatype 'a homo_or_hetero = Homo 'a | Hetero "(string \<times> 'a) list"

fun is_homo :: "'a homo_or_hetero \<Rightarrow> bool" where
  "is_homo (Homo _) = True"
| "is_homo (Hetero _) = False"

text \<open>
  The four properties of \<open>SampledSubgraph\<close>; the three id maps default to \<open>None\<close>.
\<close>

record SampledSubgraph =
  sampled_csc :: "CSCFormatBase homo_or_hetero"
  original_column_node_ids :: "id_tensor homo_or_hetero option"
  original_row_node_ids :: "id_tensor homo_or_hetero option"
  original_edge_ids :: "tensor homo_or_hetero option"

text \<open>
  The edges to exclude of one relation: a pair of tensors \<open>(src, dst)\<close>, or one tensor of
  shape \<open>(N, 2)\<close>, of one dtype, whose rows are the edges.
\<close>

datatype edge_set = EdgePair "id_tensor \<times> id_tensor" | EdgeTable dtype "(int \<times> int) list"

text \<open>
  The retain index handed to \<open>_slice_subgraph\<close>: \<open>None\<close>, a tensor, or a \<open>dict\<close> whose
  values are \<open>None\<close> or a tensor.
\<close>

type_synonym index = "tensor option homo_or_hetero"

section \<open>Tensor primitives\<close>

text \<open>
  \<open>torch.index_select(input, dim=0, index=index)\<close>: every index must lie in
  \<open>[0, len(input))\<close>.
\<close>

definition index_select :: "id_tensor \<Rightarrow> tensor \<Rightarrow> error + id_tensor" where
  "index_select input index =
     (if list_all (\<lambda>i. 0 \<le> i \<and> i < int (length (vals input))) index
      then Inr (IdTensor (dtype input) (map (\<lambda>i. vals input ! nat i) index))
      else Inl IndexError)"

text \<open>
  \<open>obj[index]\<close> with an integer tensor as index: a negative index counts from the end,
  an index outside \<open>[-len(obj), len(obj))\<close> raises.
\<close>

definition getitem :: "tensor \<Rightarrow> tensor \<Rightarrow> error + tensor" where
  "getitem obj index =
     (let n = int (length obj)
      in if list_all (\<lambda>i. - n \<le> i \<and> i < n) index
         then Inr (map (\<lambda>i. obj ! nat (if i < 0 then i + n else i)) index)
         else Inl IndexError)"

text \<open>
  The arithmetic of \<open>torch\<close> on integer elements. A value is kept in the width of its
  dtype, two's complement. \<open>a << b\<close> is computed in the dtype of \<open>a\<close>, without widening:
  the bits that leave the word are dropped, and a shift by the whole width or more
  gives 0. \<open>a | b\<close> is computed in the wider of the two dtypes.
\<close>

fun bits :: "dtype \<Rightarrow> nat" where
  "bits Int32 = 32"
| "bits Int64 = 64"

fun wrap :: "dtype \<Rightarrow> int \<Rightarrow> int" where
  "wrap Int32 x = sint (word_of_int x :: 32 word)"
| "wrap Int64 x = sint (word_of_int x :: 64 word)"

fun promote :: "dtype \<Rightarrow> dtype \<Rightarrow> dtype" where
  "promote Int32 Int32 = Int32"
| "promote _ _ = Int64"

definition lshift :: "dtype \<Rightarrow> int \<Rightarrow> nat \<Rightarrow> int" where
  "lshift t a b = (if bits t \<le> b then 0 else wrap t (push_bit b a))"

definition bitwise_or :: "dtype \<Rightarrow> int \<Rightarrow> int \<Rightarrow> int" where
  "bitwise_or t a b = wrap t (a OR b)"

text \<open>
  \<open>s << 32 | d\<close> on an element \<open>s\<close> of dtype \<open>ts\<close> and an element \<open>d\<close> of dtype \<open>td\<close>.
\<close>

definition pack :: "dtype \<Rightarrow> dtype \<Rightarrow> int \<Rightarrow> int \<Rightarrow> int" where
  "pack ts td s d = bitwise_or (promote ts td) (lshift ts s 32) d"

text \<open>
  An elementwise binary operation on two one-dimensional tensors, with the broadcasting
  of \<open>torch\<close>: equal lengths, or one operand of length 1; anything else raises.
\<close>

definition elementwise :: "(int \<Rightarrow> int \<Rightarrow> int) \<Rightarrow> tensor \<Rightarrow> tensor \<Rightarrow> error + tensor" where
  "elementwise f a b =
     (if length a = length b then Inr (map2 f a b)
      else if length a = 1 then Inr (map (f (hd a)) b)
      else if length b = 1 then Inr (map (\<lambda>x. f x (hd b)) a)
      else Inl RuntimeError)"

text \<open>\<open>a << 32 | b\<close> on two tensors of node ids.\<close>

definition shift_or :: "id_tensor \<Rightarrow> id_tensor \<Rightarrow> error + id_tensor" where
  "shift_or a b =
     (case elementwise (pack (dtype a) (dtype b)) (vals a) (vals b) of
        Inl e \<Rightarrow> Inl e
      | Inr v \<Rightarrow> Inr (IdTensor (promote (dtype a) (dtype b)) v))"

text \<open>\<open>torch.nonzero(mask, as_tuple=True)[0]\<close>: the positions of the true entries, ascending.\<close>

definition nonzero :: "bool list \<Rightarrow> tensor" where
  "nonzero msk = map int (filter (\<lambda>i. msk ! i) [0..<length msk])"

text \<open>
  \<open>torch.searchsorted(sorted_sequence, values)\<close> (with \<open>right=False\<close>) runs, for every
  value, the lower-bound binary search below on the sequence.
\<close>

function lower_bound :: "tensor \<Rightarrow> int \<Rightarrow> nat \<Rightarrow> nat \<Rightarrow> nat" where
  "lower_bound bd val start stop =
     (if start < stop
      then (let mid = start + (stop - start) div 2
            in if \<not> (bd ! mid \<ge> val)
               then lower_bound bd val (mid + 1) stop
               else lower_bound bd val start mid)
      else start)"
  by pat_completeness auto
termination
  by (relation "measure (\<lambda>(bd, val, start, stop). stop - start)") auto

declare lower_bound.simps [simp del]

definition searchsorted :: "tensor \<Rightarrow> tensor \<Rightarrow> tensor" where
  "searchsorted sorted_sequence values =
     map (\<lambda>v. int (lower_bound sorted_sequence v 0 (length sorted_sequence))) values"

section \<open>Helpers of \<open>graphbolt/base.py\<close>\<close>

text \<open>
  Modelled from the spec: \<open>isin\<close> is imported from \<open>graphbolt/base.py\<close>, which is not among
  the sources. Section 4.2: an edge is excluded iff its key equals some exclusion key. So
  \<open>isin(elements, test_elements)\<close> is the mask of the elements that occur in
  \<open>test_elements\<close>.
\<close>

definition isin :: "id_tensor \<Rightarrow> id_tensor \<Rightarrow> bool list" where
  "isin elements test_elements = map (\<lambda>x. x \<in> set (vals test_elements)) (vals elements)"

text \<open>
  Modelled from the spec: \<open>expand_indptr\<close> is imported from \<open>graphbolt/base.py\<close>, which is
  not among the sources. Section 4.1: \<open>indptr\<close> is expanded so that each edge inherits the
  id of its owning column, column \<open>j\<close>'s id being \<open>column_map[j]\<close>, or \<open>j\<close> itself without
  a map. Section 7: a malformed \<open>indptr\<close> or a length mismatch fails fast; here that is
  an empty \<open>indptr\<close>, a map whose length is not the number of columns, a decreasing
  \<open>indptr\<close>, and a number of expanded entries other than \<open>output_size\<close>. The second
  argument, which \<open>_to_reverse_ids\<close> passes, is the dtype of the tensor returned.
\<close>

definition expand_indptr :: "tensor \<Rightarrow> dtype \<Rightarrow> id_tensor option \<Rightarrow> nat \<Rightarrow> error + id_tensor" where
  "expand_indptr ptr dt node_ids output_size =
     (let num_columns = length ptr - 1;
          ids = (case node_ids of None \<Rightarrow> map int [0..<num_columns] | Some m \<Rightarrow> vals m);
          counts = map (\<lambda>j. ptr ! Suc j - ptr ! j) [0..<num_columns]
      in if ptr = [] \<or> length ids \<noteq> num_columns \<or> \<not> list_all (\<lambda>c. 0 \<le> c) counts
            \<or> sum_list counts \<noteq> int output_size
         then Inl RuntimeError
         else Inr (IdTensor dt (concat (map2 (\<lambda>v c. replicate (nat c) v) ids counts))))"

text \<open>
  Modelled from the spec: \<open>etype_str_to_tuple\<close> is imported from \<open>graphbolt/base.py\<close>,
  which is not among the sources. Section 4.4: the row ids of a relation belong to its
  source node type and the column ids to its destination node type. The relation keys of
  the docstring of \<open>exclude_edges\<close> have the form \<open>A:relation:B\<close> with node types \<open>A\<close> and
  \<open>B\<close>: the key is split at the colons, and a key that does not have three parts is
  refused.
\<close>

fun split_colon :: "string \<Rightarrow> string list" where
  "split_colon [] = [[]]"
| "split_colon (c # cs) =
     (if c = CHR '':'' then [] # split_colon cs
      else (case split_colon cs of [] \<Rightarrow> [[c]] | p # ps \<Rightarrow> (c # p) # ps))"

definition etype_message :: string where
  "etype_message = ''Passed-in canonical etype should be in format of str:str:str.''"

definition etype_str_to_tuple :: "string \<Rightarrow> error + (string \<times> string \<times> string)" where
  "etype_str_to_tuple etype =
     (case split_colon etype of
        [a, b, c] \<Rightarrow> Inr (a, b, c)
      | _ \<Rightarrow> Inl (AssertionError etype_message))"

section \<open>The functions of \<open>sampled_subgraph.py\<close>\<close>

text \<open>
  An id map as a callee takes it: \<open>None\<close> or a tensor. \<open>exclude_edges\<close> hands the id maps
  of a homogeneous subgraph on as they are, and a \<open>dict\<close> among them fails where it is
  first used as a tensor, with the exception \<open>e\<close> of that place.
\<close>

fun as_tensor :: "error \<Rightarrow> id_tensor homo_or_hetero option \<Rightarrow> error + id_tensor option" where
  "as_tensor e None = Inr None"
| "as_tensor e (Some (Homo t)) = Inr (Some t)"
| "as_tensor e (Some (Hetero d)) = Inl e"

text \<open>
  \<open>_to_reverse_ids(node_pair, original_row_node_ids, original_column_node_ids)\<close>. The row
  ids meet \<open>torch.index_select\<close>, which raises \<open>TypeError\<close> on a \<open>dict\<close>; the column ids are
  first read inside \<open>expand_indptr\<close>, after the rows are resolved, where a \<open>dict\<close> raises
  \<open>AttributeError\<close>.
\<close>

definition to_reverse_ids ::
  "CSCFormatBase \<Rightarrow> id_tensor homo_or_hetero option \<Rightarrow> id_tensor homo_or_hetero option
     \<Rightarrow> error + (id_tensor \<times> id_tensor)" where
  "to_reverse_ids node_pair row_node_ids column_node_ids =
     (case as_tensor TypeError row_node_ids of
        Inl e \<Rightarrow> Inl e
      | Inr row_map \<Rightarrow>
          (case (case row_map of
                   None \<Rightarrow> Inr (indices node_pair)
                 | Some m \<Rightarrow> index_select m (vals (indices node_pair))) of
             Inl e \<Rightarrow> Inl e
           | Inr inds \<Rightarrow>
               (case as_tensor AttributeError column_node_ids of
                  Inl e \<Rightarrow> Inl e
                | Inr column_map \<Rightarrow>
                    (case expand_indptr (indptr node_pair) (dtype inds) column_map
                            (length (vals inds)) of
                       Inl e \<Rightarrow> Inl e
                     | Inr ptr \<Rightarrow> Inr (inds, ptr)))))"

text \<open>The last two lines of both \<open>_exclude_homo_edges\<close> functions.\<close>

definition keep_positions :: "id_tensor \<Rightarrow> id_tensor \<Rightarrow> tensor" where
  "keep_positions val val_to_exclude = nonzero (map Not (isin val val_to_exclude))"

text \<open>\<open>_exclude_homo_edges(edges, edges_to_exclude, assume_num_node_within_int32)\<close>.\<close>

definition exclude_homo_edges ::
  "id_tensor \<times> id_tensor \<Rightarrow> id_tensor \<times> id_tensor \<Rightarrow> bool \<Rightarrow> error + tensor" where
  "exclude_homo_edges edges edges_to_exclude assume_num_node_within_int32 =
     (if assume_num_node_within_int32
      then (case shift_or (fst edges) (snd edges) of
              Inl e \<Rightarrow> Inl e
            | Inr val \<Rightarrow>
                (case shift_or (fst edges_to_exclude) (snd edges_to_exclude) of
                   Inl e \<Rightarrow> Inl e
                 | Inr val_to_exclude \<Rightarrow> Inr (keep_positions val val_to_exclude)))
      else Inl NotImplementedError)"

text \<open>
  \<open>_exclude_homo_edges_2\<close>: the edges to exclude are the rows of one tensor, of dtype
  \<open>dt\<close>; row 0 of its transpose holds the sources, row 1 the destinations.
\<close>

definition exclude_homo_edges_2 ::
  "id_tensor \<times> id_tensor \<Rightarrow> dtype \<Rightarrow> (int \<times> int) list \<Rightarrow> bool \<Rightarrow> error + tensor" where
  "exclude_homo_edges_2 edges dt edges_to_exclude assume_num_node_within_int32 =
     (if assume_num_node_within_int32
      then (case shift_or (fst edges) (snd edges) of
              Inl e \<Rightarrow> Inl e
            | Inr val \<Rightarrow>
                (case shift_or (IdTensor dt (map fst edges_to_exclude))
                        (IdTensor dt (map snd edges_to_exclude)) of
                   Inl e \<Rightarrow> Inl e
                 | Inr val_to_exclude \<Rightarrow> Inr (keep_positions val val_to_exclude)))
      else Inl NotImplementedError)"

text \<open>
  \<open>_index_select(obj, index)\<close> of \<open>_slice_subgraph\<close>. The two \<open>isinstance\<close> branches on a
  single object are the two functions \<open>select_csc\<close> and \<open>getitem\<close>, passed as \<open>leaf\<close>; the
  loop over a \<open>dict\<close> is \<open>index_select_items\<close>, whose recursive call meets a single object
  with an index that is \<open>None\<close> or a tensor. A single object indexed by a \<open>dict\<close> is a
  tensor indexed by a \<open>dict\<close>, which raises \<open>IndexError\<close>; a \<open>dict\<close> indexed by a tensor
  fails the assertion on the index.
\<close>

definition select_csc :: "CSCFormatBase \<Rightarrow> tensor \<Rightarrow> error + CSCFormatBase" where
  "select_csc obj index =
     (case getitem (vals (indices obj)) index of
        Inl e \<Rightarrow> Inl e
      | Inr new_indices \<Rightarrow>
          Inr \<lparr>indptr = searchsorted index (indptr obj),
               indices = IdTensor (dtype (indices obj)) new_indices\<rparr>)"

fun index_select_items ::
  "('a \<Rightarrow> tensor \<Rightarrow> error + 'a) \<Rightarrow> (string \<times> 'a) list \<Rightarrow> (string \<times> tensor option) list
     \<Rightarrow> error + (string \<times> 'a) list" where
  "index_select_items leaf [] index = Inr []"
| "index_select_items leaf ((k, v) # rest) index =
     (case map_of index k of
        None \<Rightarrow> Inl KeyError
      | Some i \<Rightarrow>
          (case (case i of None \<Rightarrow> Inr v | Some t \<Rightarrow> leaf v t) of
             Inl e \<Rightarrow> Inl e
           | Inr v' \<Rightarrow>
               (case index_select_items leaf rest index of
                  Inl e \<Rightarrow> Inl e
                | Inr ret \<Rightarrow> Inr ((k, v') # ret))))"

fun index_select_obj ::
  "('a \<Rightarrow> tensor \<Rightarrow> error + 'a) \<Rightarrow> 'a homo_or_hetero option \<Rightarrow> index
     \<Rightarrow> error + 'a homo_or_hetero option" where
  "index_select_obj leaf None index = Inr None"
| "index_select_obj leaf (Some obj) (Homo None) = Inr (Some obj)"
| "index_select_obj leaf (Some (Homo x)) (Homo (Some t)) =
     (case leaf x t of Inl e \<Rightarrow> Inl e | Inr y \<Rightarrow> Inr (Some (Homo y)))"
| "index_select_obj leaf (Some (Homo x)) (Hetero d) = Inl IndexError"
| "index_select_obj leaf (Some (Hetero obj)) (Homo (Some t)) = Inl (AssertionError [])"
| "index_select_obj leaf (Some (Hetero obj)) (Hetero d) =
     (case index_select_items leaf obj d of
        Inl e \<Rightarrow> Inl e
      | Inr ret \<Rightarrow> Inr (Some (Hetero ret)))"

text \<open>
  \<open>_slice_subgraph(subgraph, index)\<close> followed by \<open>calling_class(*...)\<close>, which builds the
  new subgraph from the four components in the order of the tuple.
\<close>

definition slice_subgraph :: "SampledSubgraph \<Rightarrow> index \<Rightarrow> error + SampledSubgraph" where
  "slice_subgraph subgraph index =
     (case index_select_obj select_csc (Some (sampled_csc subgraph)) index of
        Inl e \<Rightarrow> Inl e
      | Inr None \<Rightarrow> Inl TypeError
      | Inr (Some csc) \<Rightarrow>
          (case index_select_obj getitem (original_edge_ids subgraph) index of
             Inl e \<Rightarrow> Inl e
           | Inr edge_ids \<Rightarrow>
               Inr \<lparr>sampled_csc = csc,
                    original_column_node_ids = original_column_node_ids subgraph,
                    original_row_node_ids = original_row_node_ids subgraph,
                    original_edge_ids = edge_ids\<rparr>))"

text \<open>
  The dispatch of \<open>exclude_edges\<close> on the form of the edges to exclude of one relation.
\<close>

fun exclude_one :: "id_tensor \<times> id_tensor \<Rightarrow> edge_set \<Rightarrow> bool \<Rightarrow> error + tensor" where
  "exclude_one reverse_edges (EdgeTable dt t) flag =
     exclude_homo_edges_2 reverse_edges dt t flag"
| "exclude_one reverse_edges (EdgePair p) flag = exclude_homo_edges reverse_edges p flag"

text \<open>
  The id map of one node type: \<open>None if ids is None else ids.get(ntype)\<close>. A tensor has no
  \<open>get\<close>.
\<close>

fun ids_of_type ::
  "id_tensor homo_or_hetero option \<Rightarrow> string \<Rightarrow> error + id_tensor option" where
  "ids_of_type None ntype = Inr None"
| "ids_of_type (Some (Hetero d)) ntype = Inr (map_of d ntype)"
| "ids_of_type (Some (Homo t)) ntype = Inl AttributeError"

text \<open>
  The body of the loop \<open>for etype, pair in self.sampled_csc.items()\<close> for one relation:
  the entry \<open>index[etype]\<close>.
\<close>

definition index_of_relation ::
  "SampledSubgraph \<Rightarrow> (string \<times> edge_set) list \<Rightarrow> bool \<Rightarrow> string \<Rightarrow> CSCFormatBase
     \<Rightarrow> error + tensor option" where
  "index_of_relation self edges flag etype pair =
     (case map_of edges etype of
        None \<Rightarrow> Inr None
      | Some to_exclude \<Rightarrow>
          (case etype_str_to_tuple etype of
             Inl e \<Rightarrow> Inl e
           | Inr (src_type, _, dst_type) \<Rightarrow>
               (case ids_of_type (original_row_node_ids self) src_type of
                  Inl e \<Rightarrow> Inl e
                | Inr row_ids \<Rightarrow>
                    (case ids_of_type (original_column_node_ids self) dst_type of
                       Inl e \<Rightarrow> Inl e
                     | Inr column_ids \<Rightarrow>
                         (case to_reverse_ids pair (map_option Homo row_ids)
                                 (map_option Homo column_ids) of
                            Inl e \<Rightarrow> Inl e
                          | Inr reverse_edges \<Rightarrow>
                              (case exclude_one reverse_edges to_exclude flag of
                                 Inl e \<Rightarrow> Inl e
                               | Inr i \<Rightarrow> Inr (Some i)))))))"

text \<open>The whole loop: the \<open>dict\<close> \<open>index\<close>, or the first exception.\<close>

fun index_of_relations ::
  "SampledSubgraph \<Rightarrow> (string \<times> edge_set) list \<Rightarrow> bool \<Rightarrow> (string \<times> CSCFormatBase) list
     \<Rightarrow> error + (string \<times> tensor option) list" where
  "index_of_relations self edges flag [] = Inr []"
| "index_of_relations self edges flag ((etype, pair) # rest) =
     (case index_of_relation self edges flag etype pair of
        Inl e \<Rightarrow> Inl e
      | Inr i \<Rightarrow>
          (case index_of_relations self edges flag rest of
             Inl e \<Rightarrow> Inl e
           | Inr index \<Rightarrow> Inr ((etype, i) # index)))"

text \<open>The messages of the two assertions that open \<open>exclude_edges\<close>.\<close>

definition int32_message :: string where
  "int32_message = ''Values > int32 are not supported yet.''"

definition homogeneity_message :: string where
  "homogeneity_message =
     ''The sampled subgraph and the edges to exclude should be both homogeneous or both heterogeneous.''"

text \<open>\<open>SampledSubgraph.exclude_edges(self, edges, assume_num_node_within_int32)\<close>.\<close>

definition exclude_edges ::
  "SampledSubgraph \<Rightarrow> edge_set homo_or_hetero \<Rightarrow> bool \<Rightarrow> error + SampledSubgraph" where
  "exclude_edges self edges assume_num_node_within_int32 =
     (if \<not> assume_num_node_within_int32
      then Inl (AssertionError int32_message)
      else if is_homo (sampled_csc self) \<noteq> is_homo edges
      then Inl (AssertionError homogeneity_message)
      else (case (sampled_csc self, edges) of
              (Homo csc, Homo to_exclude) \<Rightarrow>
                (case to_reverse_ids csc (original_row_node_ids self)
                        (original_column_node_ids self) of
                   Inl e \<Rightarrow> Inl e
                 | Inr reverse_edges \<Rightarrow>
                     (case exclude_one reverse_edges to_exclude
                             assume_num_node_within_int32 of
                        Inl e \<Rightarrow> Inl e
                      | Inr index \<Rightarrow> slice_subgraph self (Homo (Some index))))
            | (Hetero items, Hetero d) \<Rightarrow>
                (case index_of_relations self d assume_num_node_within_int32 items of
                   Inl e \<Rightarrow> Inl e
                 | Inr index \<Rightarrow> slice_subgraph self (Hetero index))
            | _ \<Rightarrow> Inl TypeError))"

section \<open>Notions of the specification\<close>

text \<open>An id that is representable in 32 bits: it lies in \<open>[0, 2^32)\<close>.\<close>

definition id32 :: "int \<Rightarrow> bool" where
  "id32 x = (0 \<le> x \<and> x < 2 ^ 32)"

text \<open>
  Section 4.2 in its own words: the ascending sequence of the positions \<open>i\<close> whose pair
  \<open>(src[i], dst[i])\<close> is not a pair of the exclusion set.
\<close>

definition retained_positions :: "tensor \<Rightarrow> tensor \<Rightarrow> tensor \<Rightarrow> tensor \<Rightarrow> tensor" where
  "retained_positions src dst esrc edst =
     map int (filter (\<lambda>i. (src ! i, dst ! i) \<notin> set (zip esrc edst)) [0..<length src])"

text \<open>
  The exceptions that can only come from the resolving and the slicing, that is from below
  the two opening assertions of \<open>exclude_edges\<close>.
\<close>

definition downstream_error :: "error \<Rightarrow> bool" where
  "downstream_error e =
     (e = IndexError \<or> e = KeyError \<or> e = RuntimeError \<or> e = TypeError
      \<or> e = AttributeError \<or> e = AssertionError [] \<or> e = AssertionError etype_message)"

text \<open>
  Section 4.3 in its own words: the number of entries of a sequence that are strictly less
  than a boundary, and the gather of a sequence at a sequence of positions.
\<close>

definition count_less :: "tensor \<Rightarrow> int \<Rightarrow> nat" where
  "count_less xs v = length (filter (\<lambda>x. x < v) xs)"

definition gather :: "tensor \<Rightarrow> tensor \<Rightarrow> tensor" where
  "gather xs index = map (\<lambda>i. xs ! nat i) index"

text \<open>
  A valid CSC structure (sections 3 and 8): \<open>indptr\<close> has an entry for every column and
  one more, is non-decreasing, starts at 0 and ends at the number of edges.
\<close>

definition valid_csc :: "CSCFormatBase \<Rightarrow> bool" where
  "valid_csc c = (indptr c \<noteq> [] \<and> sorted (indptr c) \<and> hd (indptr c) = 0
     \<and> last (indptr c) = int (length (vals (indices c))))"

text \<open>A retain index over \<open>n\<close> edges: an ascending sequence of positions below \<open>n\<close>.\<close>

definition positions_of :: "nat \<Rightarrow> tensor \<Rightarrow> bool" where
  "positions_of n index = (sorted index \<and> list_all (\<lambda>i. 0 \<le> i \<and> i < int n) index)"

text \<open>
  Section 4.3 in its own words, the structure sliced by a retain index: \<open>indices\<close> is
  gathered, and \<open>new_indptr[j]\<close> is the number of retain-index entries strictly less than
  \<open>indptr[j]\<close>, for every \<open>j\<close>.
\<close>

definition sliced_csc :: "CSCFormatBase \<Rightarrow> tensor \<Rightarrow> CSCFormatBase" where
  "sliced_csc c index =
     \<lparr>indptr = map (\<lambda>p. int (count_less index p)) (indptr c),
      indices = IdTensor (dtype (indices c)) (gather (vals (indices c)) index)\<rparr>"

text \<open>
  Section 4.3 for a per-relation mapping of retain indices: the entry of a relation is
  sliced by \<open>f\<close> at the relation's retain index, and passed on when that is \<open>None\<close>.
\<close>

definition slice_entry ::
  "('a \<Rightarrow> tensor \<Rightarrow> 'a) \<Rightarrow> (string \<times> tensor option) list \<Rightarrow> string \<times> 'a \<Rightarrow> string \<times> 'a" where
  "slice_entry f index kv =
     (fst kv, case map_of index (fst kv) of Some (Some t) \<Rightarrow> f (snd kv) t | _ \<Rightarrow> snd kv)"

text \<open>
  A per-relation mapping of retain indices serves a relation when it has an entry for
  it that is \<open>None\<close> or an ascending sequence of positions of the relation's edges.
\<close>

definition index_serves :: "(string \<times> tensor option) list \<Rightarrow> string \<times> CSCFormatBase \<Rightarrow> bool" where
  "index_serves index kc =
     (case map_of index (fst kc) of
        None \<Rightarrow> False
      | Some None \<Rightarrow> True
      | Some (Some t) \<Rightarrow> positions_of (length (vals (indices (snd kc)))) t)"

text \<open>
  What \<open>_index_select\<close> makes of one entry of a \<open>dict\<close>: the key stays, and the value is
  passed on when the index of the key is \<open>None\<close> and sliced by \<open>leaf\<close> otherwise.
\<close>

definition item_sliced ::
  "('a \<Rightarrow> tensor \<Rightarrow> error + 'a) \<Rightarrow> (string \<times> tensor option) list
     \<Rightarrow> string \<times> 'a \<Rightarrow> string \<times> 'a \<Rightarrow> bool" where
  "item_sliced leaf index kv kv' =
     (fst kv' = fst kv \<and>
      (case map_of index (fst kv) of
         None \<Rightarrow> False
       | Some None \<Rightarrow> snd kv' = snd kv
       | Some (Some t) \<Rightarrow> leaf (snd kv) t = Inr (snd kv')))"

text \<open>
  The CSC validity invariant of section 8 for a sliced structure \<open>c'\<close> of \<open>c\<close>: \<open>c'\<close> is
  valid and has the columns of \<open>c\<close>.
\<close>

definition kept_columns :: "CSCFormatBase \<Rightarrow> CSCFormatBase \<Rightarrow> bool" where
  "kept_columns c c' = (valid_csc c' \<and> length (indptr c') = length (indptr c))"

text \<open>
  The example of the docstring of \<open>exclude_edges\<close> (the one of section 8 is its
  homogeneous form): three columns with one edge each, \<open>13\<rightarrow>10\<close>, \<open>14\<rightarrow>11\<close> and \<open>15\<rightarrow>12\<close> in
  original ids, from which \<open>14\<rightarrow>11\<close> and \<open>15\<rightarrow>12\<close> are excluded.
\<close>

definition example_csc :: CSCFormatBase where
  "example_csc = \<lparr>indptr = [0, 1, 2, 3], indices = IdTensor Int64 [0, 1, 2]\<rparr>"

definition example_sliced_csc :: CSCFormatBase where
  "example_sliced_csc = \<lparr>indptr = [0, 1, 1, 1], indices = IdTensor Int64 [0]\<rparr>"

definition example_rows :: id_tensor where
  "example_rows = IdTensor Int64 [13, 14, 15]"

definition example_columns :: id_tensor where
  "example_columns = IdTensor Int64 [10, 11, 12]"

definition example_hetero :: SampledSubgraph where
  "example_hetero =
     \<lparr>sampled_csc = Hetero [(''A:relation:B'', example_csc)],
      original_column_node_ids = Some (Hetero [(''B'', example_columns)]),
      original_row_node_ids = Some (Hetero [(''A'', example_rows)]),
      original_edge_ids = Some (Hetero [(''A:relation:B'', [19, 20, 21])])\<rparr>"

definition example_hetero_result :: SampledSubgraph where
  "example_hetero_result =
     \<lparr>sampled_csc = Hetero [(''A:relation:B'', example_sliced_csc)],
      original_column_node_ids = Some (Hetero [(''B'', example_columns)]),
      original_row_node_ids = Some (Hetero [(''A'', example_rows)]),
      original_edge_ids = Some (Hetero [(''A:relation:B'', [19])])\<rparr>"

definition example_homo :: SampledSubgraph where
  "example_homo =
     \<lparr>sampled_csc = Homo example_csc,
      original_column_node_ids = Some (Homo example_columns),
      original_row_node_ids = Some (Homo example_rows),
      original_edge_ids = Some (Homo [19, 20, 21])\<rparr>"

definition example_homo_result :: SampledSubgraph where
  "example_homo_result =
     \<lparr>sampled_csc = Homo example_sliced_csc,
      original_column_node_ids = Some (Homo example_columns),
      original_row_node_ids = Some (Homo example_rows),
      original_edge_ids = Some (Homo [19])\<rparr>"

definition example_edges :: edge_set where
  "example_edges = EdgePair (IdTensor Int64 [14, 15], IdTensor Int64 [11, 12])"

text \<open>
  Section 4.1 in its own words: the original id of a row, through \<open>row_map\<close> when there
  is one, and the original id of column \<open>j\<close>, \<open>column_map[j]\<close> or \<open>j\<close> itself.
\<close>

definition row_id :: "id_tensor option \<Rightarrow> int \<Rightarrow> int" where
  "row_id row_map v = (case row_map of None \<Rightarrow> v | Some m \<Rightarrow> vals m ! nat v)"

definition column_id :: "id_tensor option \<Rightarrow> nat \<Rightarrow> int" where
  "column_id column_map j = (case column_map of None \<Rightarrow> int j | Some m \<Rightarrow> vals m ! j)"

text \<open>
  The expansion of the first \<open>m\<close> columns of \<open>indptr\<close>: column \<open>j\<close> contributes its id once
  for each of its \<open>indptr[j + 1] - indptr[j]\<close> edges.
\<close>

definition expanded :: "tensor \<Rightarrow> tensor \<Rightarrow> nat \<Rightarrow> tensor" where
  "expanded ptr ids m =
     concat (map (\<lambda>j. replicate (nat (ptr ! Suc j - ptr ! j)) (ids ! j)) [0..<m])"

text \<open>
  A subgraph with a second relation, from \<open>B\<close> to \<open>A\<close>, which the example's exclusion set
  does not name.
\<close>

definition example_other_csc :: CSCFormatBase where
  "example_other_csc = \<lparr>indptr = [0, 2, 3], indices = IdTensor Int64 [2, 0, 1]\<rparr>"

definition example_two_relations :: SampledSubgraph where
  "example_two_relations =
     \<lparr>sampled_csc = Hetero [(''A:relation:B'', example_csc), (''B:follows:A'', example_other_csc)],
      original_column_node_ids =
        Some (Hetero [(''B'', example_columns), (''A'', IdTensor Int64 [13, 14])]),
      original_row_node_ids = Some (Hetero [(''A'', example_rows), (''B'', example_columns)]),
      original_edge_ids =
        Some (Hetero [(''A:relation:B'', [19, 20, 21]), (''B:follows:A'', [30, 31, 32])])\<rparr>"

definition example_two_relations_result :: SampledSubgraph where
  "example_two_relations_result =
     \<lparr>sampled_csc =
        Hetero [(''A:relation:B'', example_sliced_csc), (''B:follows:A'', example_other_csc)],
      original_column_node_ids =
        Some (Hetero [(''B'', example_columns), (''A'', IdTensor Int64 [13, 14])]),
      original_row_node_ids = Some (Hetero [(''A'', example_rows), (''B'', example_columns)]),
      original_edge_ids =
        Some (Hetero [(''A:relation:B'', [19]), (''B:follows:A'', [30, 31, 32])])\<rparr>"

text \<open>
  A subgraph whose only edge, \<open>0 \<rightarrow> 2^32\<close> in original ids, has a destination beyond
  32 bits, and what \<open>exclude_edges\<close> makes of it when \<open>1 \<rightarrow> 0\<close> is excluded.
\<close>

definition example_wide :: SampledSubgraph where
  "example_wide =
     \<lparr>sampled_csc = Homo \<lparr>indptr = [0, 1], indices = IdTensor Int64 [0]\<rparr>,
      original_column_node_ids = Some (Homo (IdTensor Int64 [4294967296])),
      original_row_node_ids = None,
      original_edge_ids = Some (Homo [7])\<rparr>"

definition example_wide_result :: SampledSubgraph where
  "example_wide_result =
     \<lparr>sampled_csc = Homo \<lparr>indptr = [0, 0], indices = IdTensor Int64 []\<rparr>,
      original_column_node_ids = Some (Homo (IdTensor Int64 [4294967296])),
      original_row_node_ids = None,
      original_edge_ids = Some (Homo [])\<rparr>"

text \<open>
  The keys of an exclusion set, packed as both \<open>_exclude_homo_edges\<close> functions pack them.
\<close>

fun exclusion_keys :: "edge_set \<Rightarrow> error + id_tensor" where
  "exclusion_keys (EdgePair p) = shift_or (fst p) (snd p)"
| "exclusion_keys (EdgeTable dt t) =
     shift_or (IdTensor dt (map fst t)) (IdTensor dt (map snd t))"

text \<open>
  Section 4.2, the degenerate case: the relation resolves to original ids and no key of
  the exclusion set is the key of a sampled edge. The empty exclusion set is the
  plainest instance.
\<close>

definition matches_nothing ::
  "CSCFormatBase \<Rightarrow> id_tensor homo_or_hetero option \<Rightarrow> id_tensor homo_or_hetero option
     \<Rightarrow> edge_set \<Rightarrow> bool" where
  "matches_nothing c row_map column_map to_exclude =
     (case to_reverse_ids c row_map column_map of
        Inl _ \<Rightarrow> False
      | Inr r \<Rightarrow>
          (case shift_or (fst r) (snd r) of
             Inl _ \<Rightarrow> False
           | Inr val \<Rightarrow>
               (case exclusion_keys to_exclude of
                  Inl _ \<Rightarrow> False
                | Inr keys \<Rightarrow> list_all (\<lambda>key. key \<notin> set (vals val)) (vals keys))))"

text \<open>The retain index that keeps every one of \<open>n\<close> edges.\<close>

definition all_positions :: "nat \<Rightarrow> tensor" where
  "all_positions n = map int [0..<n]"

text \<open>
  Section 3: the edge ids are aligned one to one with \<open>indices\<close>, and in a heterogeneous
  subgraph they are keyed by relations of \<open>sampled_csc\<close>.
\<close>

definition edge_ids_aligned :: "SampledSubgraph \<Rightarrow> bool" where
  "edge_ids_aligned g =
     (case original_edge_ids g of
        None \<Rightarrow> True
      | Some (Homo e) \<Rightarrow>
          (case sampled_csc g of
             Homo c \<Rightarrow> length e = length (vals (indices c))
           | Hetero _ \<Rightarrow> False)
      | Some (Hetero eids) \<Rightarrow>
          (case sampled_csc g of
             Homo _ \<Rightarrow> False
           | Hetero items \<Rightarrow>
               list_all (\<lambda>ke. case map_of items (fst ke) of
                                None \<Rightarrow> False
                              | Some c \<Rightarrow> length (snd ke) = length (vals (indices c))) eids))"

text \<open>
  A relation of a heterogeneous subgraph that an exclusion set leaves whole: the set
  does not name it, or the relation is valid, its node types resolve and no key matches.
\<close>

definition relation_unmatched ::
  "SampledSubgraph \<Rightarrow> (string \<times> edge_set) list \<Rightarrow> string \<Rightarrow> CSCFormatBase \<Rightarrow> bool" where
  "relation_unmatched h d etype c =
     (case map_of d etype of
        None \<Rightarrow> True
      | Some to_exclude \<Rightarrow>
          valid_csc c \<and>
          (case etype_str_to_tuple etype of
             Inl _ \<Rightarrow> False
           | Inr (src_type, _, dst_type) \<Rightarrow>
               (case ids_of_type (original_row_node_ids h) src_type of
                  Inl _ \<Rightarrow> False
                | Inr row_map \<Rightarrow>
                    (case ids_of_type (original_column_node_ids h) dst_type of
                       Inl _ \<Rightarrow> False
                     | Inr column_map \<Rightarrow>
                         matches_nothing c (map_option Homo row_map)
                           (map_option Homo column_map) to_exclude))))"

section \<open>The packed key\<close>

lemma promote_Int64: "promote Int64 t = Int64"
  by (cases t) simp_all

text \<open>
  With an \<open>int64\<close> source the key is \<open>s << 32 | d\<close> in 64 bits. With an \<open>int32\<close> source
  the shift by 32 leaves nothing, and the key is the destination alone.
\<close>

lemma pack_int64:
  "pack Int64 td s d = sint (push_bit 32 (word_of_int s :: 64 word) OR word_of_int d)"
  by (simp add: pack_def bitwise_or_def lshift_def promote_Int64 of_int_or_eq of_int_push_bit)

lemma pack_int32: "pack Int32 td s d = wrap (promote Int32 td) d"
  by (simp add: pack_def bitwise_or_def lshift_def)

lemma id32_take: "id32 x \<Longrightarrow> take_bit 32 x = x"
  by (simp add: id32_def take_bit_int_eq_self)

lemma id32_take64: "id32 x \<Longrightarrow> take_bit 64 x = x"
  unfolding id32_def by (rule take_bit_int_eq_self) auto

lemma id32_drop: "id32 x \<Longrightarrow> drop_bit 32 x = 0"
  using id32_take take_bit_eq_self_iff_drop_bit_eq_0 by blast

text \<open>On ids of 32 bits nothing is lost: the key is \<open>s * 2^32 + d\<close>, read unsigned.\<close>

lemma uint_pack:
  assumes "id32 s" "id32 d"
  shows "uint (push_bit 32 (word_of_int s :: 64 word) OR word_of_int d) = push_bit 32 s OR d"
proof -
  have "uint (word_of_int d :: 64 word) = d"
    using assms(2) by (simp add: uint_word_of_int_eq id32_take64)
  moreover have "uint (push_bit 32 (word_of_int s :: 64 word)) = push_bit 32 s"
  proof -
    have "uint (push_bit 32 (word_of_int s :: 64 word))
        = take_bit 64 (push_bit 32 (take_bit 64 s))"
      by (simp add: unsigned_push_bit_eq uint_word_of_int_eq)
    also have "\<dots> = push_bit 32 (take_bit 32 s)"
      using assms(1) by (simp add: take_bit_push_bit id32_take64)
    finally show ?thesis using assms(1) by (simp add: id32_take)
  qed
  ultimately show ?thesis by (simp add: uint_or)
qed

lemma pack_inj:
  assumes "id32 s" "id32 d" "id32 s'" "id32 d'" "pack Int64 td s d = pack Int64 td' s' d'"
  shows "s = s' \<and> d = d'"
proof -
  have "push_bit 32 (word_of_int s :: 64 word) OR word_of_int d
      = push_bit 32 (word_of_int s') OR word_of_int d'"
    using assms(5) unfolding pack_int64 by (rule signed_word_eqI)
  then have eq: "push_bit 32 s OR d = push_bit 32 s' OR d'"
    using assms(1-4) by (metis uint_pack)
  have "drop_bit 32 (push_bit 32 a OR b) = a" if "id32 b" for a b :: int
    using that by (simp add: drop_bit_or id32_drop drop_bit_push_bit_int)
  then have "s = s'" using eq assms(2,4) by metis
  have "take_bit 32 (push_bit 32 a OR b) = b" if "id32 b" for a b :: int
    using that by (simp add: take_bit_push_bit id32_take)
  then have "d = d'" using eq assms(2,4) by metis
  with \<open>s = s'\<close> show ?thesis by simp
qed

lemma pack_mem_zip:
  assumes "id32 s" "id32 d" "list_all id32 esrc" "list_all id32 edst"
  shows "pack Int64 td s d \<in> set (map2 (pack Int64 te) esrc edst)
     \<longleftrightarrow> (s, d) \<in> set (zip esrc edst)"
proof
  assume "pack Int64 td s d \<in> set (map2 (pack Int64 te) esrc edst)"
  then obtain a b where ab: "(a, b) \<in> set (zip esrc edst)"
    "pack Int64 td s d = pack Int64 te a b"
    by auto
  then have "a \<in> set esrc" "b \<in> set edst"
    by (auto dest: set_zip_leftD set_zip_rightD)
  then have "id32 a" "id32 b"
    using assms(3,4) by (auto simp: list_all_iff)
  with ab(2) assms(1,2) have "s = a \<and> d = b"
    by (intro pack_inj) auto
  with ab(1) show "(s, d) \<in> set (zip esrc edst)" by simp
next
  assume "(s, d) \<in> set (zip esrc edst)"
  then have "pack Int64 te s d \<in> set (map2 (pack Int64 te) esrc edst)" by force
  then show "pack Int64 td s d \<in> set (map2 (pack Int64 te) esrc edst)"
    by (simp add: pack_int64)
qed

section \<open>The exclusion engine\<close>

lemma keep_positions_eq:
  "keep_positions val vex =
     map int (filter (\<lambda>i. vals val ! i \<notin> set (vals vex)) [0..<length (vals val)])"
  unfolding keep_positions_def nonzero_def isin_def
  by (auto intro!: arg_cong[where f="map int"] filter_cong)

lemma elementwise_same_length:
  "length a = length b \<Longrightarrow> elementwise f a b = Inr (map2 f a b)"
  by (simp add: elementwise_def)

lemma shift_or_same_length:
  "length (vals a) = length (vals b) \<Longrightarrow>
     shift_or a b = Inr (IdTensor (promote (dtype a) (dtype b))
                          (map2 (pack (dtype a) (dtype b)) (vals a) (vals b)))"
  by (simp add: shift_or_def elementwise_same_length)

text \<open>The keys of \<open>int64\<close> sources of 32 bits decide as the pairs do.\<close>

lemma keep_positions_exact:
  assumes "length src = length dst"
    and "list_all id32 src" "list_all id32 dst" "list_all id32 esrc" "list_all id32 edst"
  shows "keep_positions (IdTensor t (map2 (pack Int64 td) src dst))
           (IdTensor t' (map2 (pack Int64 te) esrc edst))
       = retained_positions src dst esrc edst"
proof -
  have "filter (\<lambda>i. map2 (pack Int64 td) src dst ! i \<notin> set (map2 (pack Int64 te) esrc edst))
          [0..<length src]
      = filter (\<lambda>i. (src ! i, dst ! i) \<notin> set (zip esrc edst)) [0..<length src]"
  proof (rule filter_cong[OF refl])
    fix i assume "i \<in> set [0..<length src]"
    then have i: "i < length src" "i < length dst" using assms(1) by auto
    then have "id32 (src ! i)" "id32 (dst ! i)"
      using assms(2,3) by (auto simp: list_all_length)
    then show "(map2 (pack Int64 td) src dst ! i \<notin> set (map2 (pack Int64 te) esrc edst))
             = ((src ! i, dst ! i) \<notin> set (zip esrc edst))"
      using i pack_mem_zip [OF _ _ assms(4,5), of "src ! i" "dst ! i" td te] by simp
  qed
  then show ?thesis
    using assms(1) by (simp add: keep_positions_eq retained_positions_def)
qed

text \<open>
  The second engine, for an exclusion set given as one \<open>int64\<close> tensor of rows, packs
  the two columns of the tensor.
\<close>

lemma exclude_homo_edges_2_exact:
  assumes "dtype src = Int64" "length (vals src) = length (vals dst)"
    and "list_all id32 (vals src)" "list_all id32 (vals dst)"
    and "list_all id32 (map fst rows)" "list_all id32 (map snd rows)"
  shows "exclude_homo_edges_2 (src, dst) Int64 rows True =
           Inr (retained_positions (vals src) (vals dst) (map fst rows) (map snd rows))"
proof -
  have val: "shift_or src dst =
      Inr (IdTensor Int64 (map2 (pack Int64 (dtype dst)) (vals src) (vals dst)))"
    using assms(1,2) by (simp add: shift_or_same_length promote_Int64)
  have vex: "shift_or (IdTensor Int64 (map fst rows)) (IdTensor Int64 (map snd rows)) =
      Inr (IdTensor Int64 (map2 (pack Int64 Int64) (map fst rows) (map snd rows)))"
    by (simp add: shift_or_same_length)
  show ?thesis
    using keep_positions_exact [OF assms(2-6)]
    by (simp add: exclude_homo_edges_2_def val vex)
qed

lemma exclude_homo_edges_pair_exact:
  assumes "dtype src = Int64" "length (vals src) = length (vals dst)"
    and "list_all id32 (vals src)" "list_all id32 (vals dst)"
    and "dtype esrc = Int64" "length (vals esrc) = length (vals edst)"
    and "list_all id32 (vals esrc)" "list_all id32 (vals edst)"
  shows "exclude_homo_edges (src, dst) (esrc, edst) True =
           Inr (retained_positions (vals src) (vals dst) (vals esrc) (vals edst))"
proof -
  have val: "shift_or src dst =
      Inr (IdTensor Int64 (map2 (pack Int64 (dtype dst)) (vals src) (vals dst)))"
    using assms(1,2) by (simp add: shift_or_same_length promote_Int64)
  have vex: "shift_or esrc edst =
      Inr (IdTensor Int64 (map2 (pack Int64 (dtype edst)) (vals esrc) (vals edst)))"
    using assms(5,6) by (simp add: shift_or_same_length promote_Int64)
  show ?thesis
    using keep_positions_exact [OF assms(2-4,7,8)]
    by (simp add: exclude_homo_edges_def val vex)
qed

text \<open>
  Claim C1, as amended. When the tensors of the sources are \<open>int64\<close> and the sources and
  the destinations of the sampled edges and of the exclusion pairs all lie in
  \<open>[0, 2^32)\<close>, the exclusion engine returns exactly the ascending sequence of the
  positions \<open>i\<close> whose pair \<open>(src[i], dst[i])\<close> equals no pair of the exclusion set: an
  excluded pair is absent, every other edge is kept in its original order, and a match
  on one endpoint alone excludes nothing. This holds for both forms of the exclusion
  set: a pair of tensors \<open>(src, dst)\<close>, and one \<open>int64\<close> tensor whose rows are the pairs.
\<close>

theorem exclude_homo_edges_exact:
  assumes "dtype src = Int64" "length (vals src) = length (vals dst)"
    and "list_all id32 (vals src)" "list_all id32 (vals dst)"
  shows "(dtype esrc = Int64 \<and> length (vals esrc) = length (vals edst)
          \<and> list_all id32 (vals esrc) \<and> list_all id32 (vals edst)
          \<longrightarrow> exclude_homo_edges (src, dst) (esrc, edst) True =
                Inr (retained_positions (vals src) (vals dst) (vals esrc) (vals edst)))
       \<and> (list_all id32 (map fst rows) \<and> list_all id32 (map snd rows)
          \<longrightarrow> exclude_homo_edges_2 (src, dst) Int64 rows True =
                Inr (retained_positions (vals src) (vals dst) (map fst rows) (map snd rows)))"
  using exclude_homo_edges_pair_exact [OF assms] exclude_homo_edges_2_exact [OF assms]
  by blast

text \<open>
  The edges \<open>13\<rightarrow>10\<close>, \<open>14\<rightarrow>11\<close>, \<open>15\<rightarrow>12\<close> without \<open>14\<rightarrow>11\<close> and \<open>15\<rightarrow>12\<close>: position 0 stays.
  Without \<open>14\<rightarrow>12\<close> and \<open>15\<rightarrow>11\<close>, which match on one endpoint each, all three stay.
\<close>

theorem exclude_homo_edges_exact_witness:
  "exclude_homo_edges (IdTensor Int64 [13, 14, 15], IdTensor Int64 [10, 11, 12])
     (IdTensor Int64 [14, 15], IdTensor Int64 [11, 12]) True = Inr [0]
   \<and> exclude_homo_edges_2 (IdTensor Int64 [13, 14, 15], IdTensor Int64 [10, 11, 12])
       Int64 [(14, 12), (15, 11)] True = Inr [0, 1, 2]"
  using exclude_homo_edges_exact
    [of "IdTensor Int64 [13, 14, 15]" "IdTensor Int64 [10, 11, 12]"
        "IdTensor Int64 [14, 15]" "IdTensor Int64 [11, 12]" "[(14, 12), (15, 11)]"]
  by (simp add: id32_def retained_positions_def)

text \<open>
  Claim C1 as stated fails outside 32 bits, on \<open>int64\<close> tensors: the sampled edge
  \<open>0 \<rightarrow> 2^32\<close> is not the excluded pair \<open>1 \<rightarrow> 0\<close>, so position 0 is to be retained, but both
  pack to the key \<open>2^32\<close> and the engine returns no position. A source beyond 32 bits
  fails alike: the shift drops its high bits, so the edge \<open>2^32 \<rightarrow> 0\<close> has the key of the
  excluded pair \<open>0 \<rightarrow> 0\<close>.
\<close>

theorem exclude_homo_edges_wide_id_counterexample:
  "exclude_homo_edges (IdTensor Int64 [0], IdTensor Int64 [4294967296])
     (IdTensor Int64 [1], IdTensor Int64 [0]) True = Inr []
   \<and> retained_positions [0] [4294967296] [1] [0] = [0]
   \<and> exclude_homo_edges (IdTensor Int64 [4294967296], IdTensor Int64 [0])
        (IdTensor Int64 [0], IdTensor Int64 [0]) True = Inr []
   \<and> retained_positions [4294967296] [0] [0] [0] = [0]"
  by (simp add: exclude_homo_edges_def shift_or_def elementwise_def pack_int64
      keep_positions_def isin_def nonzero_def retained_positions_def)

text \<open>
  On \<open>int32\<close> tensors the key holds nothing of the source: the edge \<open>14 \<rightarrow> 11\<close> goes when
  only \<open>99 \<rightarrow> 11\<close> is excluded. No statement above is about such tensors.
\<close>

lemma exclude_homo_edges_int32_sources:
  "exclude_homo_edges (IdTensor Int32 [13, 14, 15], IdTensor Int32 [10, 11, 12])
     (IdTensor Int32 [99], IdTensor Int32 [11]) True = Inr [0, 2]"
  by (simp add: exclude_homo_edges_def shift_or_def elementwise_def pack_int32
      keep_positions_def isin_def nonzero_def)

section \<open>Which exception comes from where\<close>

lemma index_select_error: "index_select m i = Inl e \<Longrightarrow> e = IndexError"
  by (auto simp: index_select_def split: if_splits)

lemma getitem_error: "getitem m i = Inl e \<Longrightarrow> e = IndexError"
  by (auto simp: getitem_def Let_def split: if_splits)

lemma elementwise_error: "elementwise f a b = Inl e \<Longrightarrow> e = RuntimeError"
  by (auto simp: elementwise_def split: if_splits)

lemma shift_or_error: "shift_or a b = Inl e \<Longrightarrow> e = RuntimeError"
  by (auto simp: shift_or_def split: sum.splits dest: elementwise_error)

lemma expand_indptr_error: "expand_indptr p dt m n = Inl e \<Longrightarrow> e = RuntimeError"
  by (auto simp: expand_indptr_def Let_def split: if_splits)

lemma as_tensor_error: "as_tensor e' m = Inl e \<Longrightarrow> e = e'"
  by (cases "(e', m)" rule: as_tensor.cases) auto

lemma to_reverse_ids_error:
  "to_reverse_ids c r m = Inl e \<Longrightarrow> downstream_error e"
  by (auto simp: to_reverse_ids_def downstream_error_def split: sum.splits option.splits
      dest: index_select_error expand_indptr_error as_tensor_error)

lemma exclude_one_error: "exclude_one r x True = Inl e \<Longrightarrow> e = RuntimeError"
  by (cases x)
     (auto simp: exclude_homo_edges_def exclude_homo_edges_2_def split: sum.splits
      dest: shift_or_error)

lemma select_csc_error: "select_csc c i = Inl e \<Longrightarrow> e = IndexError"
  by (auto simp: select_csc_def split: sum.splits dest: getitem_error)

lemma index_select_items_error:
  assumes "\<And>v t e. leaf v t = Inl e \<Longrightarrow> e = IndexError"
  shows "index_select_items leaf obj d = Inl e \<Longrightarrow> e = IndexError \<or> e = KeyError"
proof (induction obj arbitrary: e)
  case Nil
  then show ?case by simp
next
  case (Cons kv obj)
  obtain k v where kv: "kv = (k, v)" by (cases kv)
  from Cons.prems Cons.IH assms show ?case
    unfolding kv by (auto split: option.splits sum.splits)
qed

lemma index_select_obj_error:
  assumes "\<And>v t e. leaf v t = Inl e \<Longrightarrow> e = IndexError"
    and "index_select_obj leaf obj i = Inl e"
  shows "downstream_error e"
proof (cases "(leaf, obj, i)" rule: index_select_obj.cases)
  case (6 leaf' items d)
  with assms(2) have "index_select_items leaf items d = Inl e"
    by (auto split: sum.splits)
  then have "e = IndexError \<or> e = KeyError"
    using assms(1) by (rule index_select_items_error[rotated])
  then show ?thesis by (auto simp: downstream_error_def)
qed (use assms in \<open>auto simp: downstream_error_def split: sum.splits\<close>)

lemma slice_subgraph_error:
  assumes "slice_subgraph g i = Inl e"
  shows "downstream_error e"
proof (cases "index_select_obj select_csc (Some (sampled_csc g)) i")
  case (Inl e')
  with assms have "e' = e" by (simp add: slice_subgraph_def)
  with Inl show ?thesis
    using index_select_obj_error [of select_csc] select_csc_error by blast
next
  case (Inr c)
  show ?thesis
  proof (cases c)
    case None
    with Inr assms show ?thesis
      by (simp add: slice_subgraph_def downstream_error_def)
  next
    case (Some csc)
    with Inr assms have "index_select_obj getitem (original_edge_ids g) i = Inl e"
      by (simp add: slice_subgraph_def split: sum.splits)
    then show ?thesis
      using index_select_obj_error [of getitem] getitem_error by blast
  qed
qed

lemma etype_str_to_tuple_error:
  "etype_str_to_tuple s = Inl e \<Longrightarrow> e = AssertionError etype_message"
  by (auto simp: etype_str_to_tuple_def split: list.splits)

lemma ids_of_type_error: "ids_of_type m t = Inl e \<Longrightarrow> e = AttributeError"
  by (cases "(m, t)" rule: ids_of_type.cases) auto

lemma index_of_relation_error:
  "index_of_relation g d True etype pair = Inl e \<Longrightarrow> downstream_error e"
  unfolding index_of_relation_def
  by (auto split: option.splits sum.splits prod.splits simp: downstream_error_def
      dest: etype_str_to_tuple_error ids_of_type_error to_reverse_ids_error exclude_one_error)

lemma index_of_relations_error:
  "index_of_relations g d True items = Inl e \<Longrightarrow> downstream_error e"
proof (induction items arbitrary: e)
  case Nil
  then show ?case by simp
next
  case (Cons kv items)
  obtain k v where kv: "kv = (k, v)" by (cases kv)
  from Cons.prems Cons.IH show ?case
    unfolding kv by (auto split: sum.splits dest: index_of_relation_error)
qed

text \<open>
  Past its two assertions, \<open>exclude_edges\<close> fails only with an exception of the resolving
  or the slicing.
\<close>

lemma exclude_edges_body_error:
  assumes "exclude_edges g edges True = Inl e" "is_homo (sampled_csc g) = is_homo edges"
  shows "downstream_error e"
proof (cases "sampled_csc g")
  case (Homo csc)
  with assms(2) obtain x where x: "edges = Homo x" by (cases edges) auto
  from assms(1) show ?thesis
    unfolding exclude_edges_def Homo x
    by (auto split: sum.splits simp: downstream_error_def [of RuntimeError]
        dest: to_reverse_ids_error exclude_one_error slice_subgraph_error)
next
  case (Hetero items)
  with assms(2) obtain d where d: "edges = Hetero d" by (cases edges) auto
  from assms(1) show ?thesis
    unfolding exclude_edges_def Hetero d
    by (auto split: sum.splits dest: index_of_relations_error slice_subgraph_error)
qed

section \<open>The two assertions of \<open>exclude_edges\<close>\<close>

text \<open>
  Claim C7. With \<open>assume_num_node_within_int32\<close> false, \<open>exclude_edges\<close> fails with the
  assertion "Values > int32 are not supported yet." for every subgraph and every
  exclusion set, so nothing is resolved or sliced and the wide-range branch of
  \<open>_exclude_homo_edges\<close> (and of \<open>_exclude_homo_edges_2\<close>), which itself only raises
  \<open>NotImplementedError\<close>, is never reached. With the flag true neither of the two
  "unsupported" exceptions is raised.
\<close>

theorem exclude_edges_int32_flag:
  "exclude_edges g edges False = Inl (AssertionError int32_message)
   \<and> exclude_homo_edges r x False = Inl NotImplementedError
   \<and> exclude_homo_edges_2 r dt y False = Inl NotImplementedError
   \<and> exclude_edges g edges True \<noteq> Inl (AssertionError int32_message)
   \<and> exclude_edges g edges True \<noteq> Inl NotImplementedError"
proof -
  have flag_false: "exclude_edges g edges False = Inl (AssertionError int32_message)"
    by (simp add: exclude_edges_def)
  have not_unsupported: "e \<noteq> AssertionError int32_message \<and> e \<noteq> NotImplementedError"
    if "exclude_edges g edges True = Inl e" for e
  proof (cases "is_homo (sampled_csc g) = is_homo edges")
    case True
    with that have "downstream_error e" by (rule exclude_edges_body_error)
    then show ?thesis
      by (auto simp: downstream_error_def int32_message_def etype_message_def)
  next
    case False
    with that have "e = AssertionError homogeneity_message"
      by (simp add: exclude_edges_def)
    then show ?thesis
      by (simp add: int32_message_def homogeneity_message_def)
  qed
  show ?thesis
    using flag_false not_unsupported
    by (auto simp: exclude_homo_edges_def exclude_homo_edges_2_def)
qed

theorem exclude_edges_int32_flag_witness:
  "exclude_edges example_homo (Homo example_edges) False = Inl (AssertionError int32_message)
   \<and> exclude_edges example_homo (Homo example_edges) True
     \<noteq> Inl (AssertionError int32_message)"
  using exclude_edges_int32_flag [of example_homo "Homo example_edges"]
  by simp

text \<open>
  Claim C8. When one of the subgraph and the exclusion set is a single structure and the
  other a per-relation \<open>dict\<close>, \<open>exclude_edges\<close> raises, whatever the flag and whatever the
  tensors hold; with the flag true the exception is the homogeneity assertion, and that
  assertion fails in no other case: when the two forms agree the call goes on to the
  resolving and the slicing.
\<close>

theorem exclude_edges_homogeneity:
  "(is_homo (sampled_csc g) \<noteq> is_homo edges \<longrightarrow> (\<exists>e. exclude_edges g edges flag = Inl e))
   \<and> ((exclude_edges g edges True = Inl (AssertionError homogeneity_message))
        = (is_homo (sampled_csc g) \<noteq> is_homo edges))"
proof -
  have "downstream_error e \<Longrightarrow> e \<noteq> AssertionError homogeneity_message" for e
    by (auto simp: downstream_error_def homogeneity_message_def etype_message_def)
  then have "exclude_edges g edges True \<noteq> Inl (AssertionError homogeneity_message)"
    if "is_homo (sampled_csc g) = is_homo edges"
    using that exclude_edges_body_error by blast
  then show ?thesis
    by (auto simp: exclude_edges_def)
qed

theorem exclude_edges_homogeneity_witness:
  "is_homo (sampled_csc example_homo) \<noteq> is_homo (Hetero [(''A:relation:B'', example_edges)])
   \<and> exclude_edges example_homo (Hetero [(''A:relation:B'', example_edges)]) True
     = Inl (AssertionError homogeneity_message)"
  using exclude_edges_homogeneity
    [of example_homo "Hetero [(''A:relation:B'', example_edges)]" True]
  by (simp add: example_homo_def)

section \<open>The binary search of \<open>searchsorted\<close>\<close>

lemma count_less_split:
  assumes "k \<le> length xs" "\<forall>i<k. xs ! i < v" "\<forall>i. k \<le> i \<and> i < length xs \<longrightarrow> v \<le> xs ! i"
  shows "count_less xs v = k"
proof -
  have "filter (\<lambda>x. x < v) (take k xs) = take k xs"
    using assms(1,2) by (auto simp: filter_id_conv in_set_conv_nth)
  moreover have "filter (\<lambda>x. x < v) (drop k xs) = []"
  proof -
    have "\<not> x < v" if "x \<in> set (drop k xs)" for x
    proof -
      from that obtain i where "i < length xs - k" "x = xs ! (k + i)"
        by (auto simp: in_set_conv_nth)
      with assms(3) show ?thesis by (simp add: not_less)
    qed
    then show ?thesis by (simp add: filter_empty_conv)
  qed
  moreover have "xs = take k xs @ drop k xs" by simp
  ultimately have "filter (\<lambda>x. x < v) xs = take k xs"
    by (metis append_Nil2 filter_append)
  then show ?thesis using assms(1) by (simp add: count_less_def)
qed

lemma lower_bound_count_less:
  assumes "sorted bd"
  shows "start \<le> stop \<Longrightarrow> stop \<le> length bd \<Longrightarrow> \<forall>i. i < start \<longrightarrow> bd ! i < v
     \<Longrightarrow> \<forall>i. stop \<le> i \<and> i < length bd \<longrightarrow> v \<le> bd ! i
     \<Longrightarrow> lower_bound bd v start stop = count_less bd v"
  using assms
proof (induction bd v start stop rule: lower_bound.induct)
  case (1 bd val start stop)
  show ?case
  proof (cases "start < stop")
    case False
    with "1.prems" have "start = stop" by simp
    with "1.prems" have "count_less bd val = start"
      by (intro count_less_split) auto
    with False show ?thesis by (simp add: lower_bound.simps [of bd val start stop])
  next
    case True
    define mid where "mid = start + (stop - start) div 2"
    have mid: "start \<le> mid" "mid < stop" using True by (auto simp: mid_def)
    show ?thesis
    proof (cases "bd ! mid \<ge> val")
      case ge: True
      have "\<forall>i. mid \<le> i \<and> i < length bd \<longrightarrow> val \<le> bd ! i"
        using ge \<open>sorted bd\<close> by (meson order_trans sorted_nth_mono)
      then have "lower_bound bd val start mid = count_less bd val"
        using "1.IH"(2)[OF True mid_def] ge mid "1.prems" by simp
      then show ?thesis
        using True ge by (subst lower_bound.simps) (simp add: mid_def Let_def)
    next
      case lt: False
      have "\<forall>i. i < mid + 1 \<longrightarrow> bd ! i < val"
      proof (intro allI impI)
        fix i assume "i < mid + 1"
        then have "bd ! i \<le> bd ! mid"
          using \<open>sorted bd\<close> mid "1.prems"(2) by (intro sorted_nth_mono) auto
        with lt show "bd ! i < val" by simp
      qed
      then have "lower_bound bd val (mid + 1) stop = count_less bd val"
        using "1.IH"(1)[OF True mid_def] lt mid "1.prems" by simp
      then show ?thesis
        using True lt by (subst lower_bound.simps) (simp add: mid_def Let_def)
    qed
  qed
qed

lemma searchsorted_count_less:
  "sorted s \<Longrightarrow> searchsorted s values = map (\<lambda>v. int (count_less s v)) values"
  by (simp add: searchsorted_def lower_bound_count_less [where start = 0])

section \<open>The slicer\<close>

lemma getitem_positions:
  "list_all (\<lambda>i. 0 \<le> i \<and> i < int (length xs)) index \<Longrightarrow> getitem xs index = Inr (gather xs index)"
  by (auto simp: getitem_def gather_def Let_def list_all_iff)

lemma select_csc_positions:
  assumes "positions_of (length (vals (indices c))) index"
  shows "select_csc c index = Inr (sliced_csc c index)"
  using assms
  by (simp add: select_csc_def sliced_csc_def positions_of_def getitem_positions
      searchsorted_count_less)

lemma count_less_mono: "p \<le> q \<Longrightarrow> count_less xs p \<le> count_less xs q"
  unfolding count_less_def by (induction xs) auto

lemma count_less_none: "list_all (\<lambda>i. v \<le> i) xs \<Longrightarrow> count_less xs v = 0"
  unfolding count_less_def by (induction xs) auto

lemma count_less_all: "list_all (\<lambda>i. i < v) xs \<Longrightarrow> count_less xs v = length xs"
  unfolding count_less_def by (induction xs) auto

lemma valid_csc_sliced:
  assumes "valid_csc c" "positions_of (length (vals (indices c))) index"
  shows "valid_csc (sliced_csc c index)"
proof -
  let ?f = "\<lambda>p. int (count_less index p)"
  from assms(1) have ne: "indptr c \<noteq> []" and srt: "sorted (indptr c)"
    and first: "hd (indptr c) = 0"
    and lst: "last (indptr c) = int (length (vals (indices c)))"
    by (auto simp: valid_csc_def)
  have "sorted (map ?f (indptr c))"
    using srt by (auto simp: sorted_iff_nth_mono intro!: count_less_mono)
  moreover have "hd (map ?f (indptr c)) = 0"
    using ne first assms(2)
    by (simp add: hd_map positions_of_def count_less_none list_all_iff)
  moreover have "last (map ?f (indptr c)) = int (length index)"
    using ne lst assms(2)
    by (simp add: last_map positions_of_def count_less_all list_all_iff)
  ultimately show ?thesis
    using ne by (simp add: valid_csc_def sliced_csc_def gather_def)
qed

lemma keep_positions_positions: "positions_of (length (vals val)) (keep_positions val vex)"
proof -
  have "sorted (map int (filter P [0..<n]))" for P n
    by (simp add: sorted_map sorted_wrt_filter sorted_wrt_mono_rel [of _ "(\<le>)"])
  moreover have "list_all (\<lambda>i. 0 \<le> i \<and> i < int n) (map int (filter P [0..<n]))" for P n
    by (auto simp: list_all_iff)
  ultimately show ?thesis
    by (simp add: positions_of_def keep_positions_eq)
qed

lemma exclude_one_positions:
  assumes "exclude_one r x flag = Inr index" "length (vals (fst r)) = length (vals (snd r))"
  shows "positions_of (length (vals (fst r))) index"
proof -
  obtain val where val: "shift_or (fst r) (snd r) = Inr val"
    "length (vals val) = length (vals (fst r))"
    using shift_or_same_length [OF assms(2)] assms(2) by simp
  from assms(1) obtain vex where "index = keep_positions val vex"
    by (cases x; cases flag)
       (auto simp: exclude_homo_edges_def exclude_homo_edges_2_def val split: sum.splits)
  then show ?thesis
    using keep_positions_positions [of val vex] val(2) by simp
qed

lemma length_concat_replicate:
  "length ids = length counts \<Longrightarrow> list_all (\<lambda>c. 0 \<le> c) counts
     \<Longrightarrow> int (length (concat (map2 (\<lambda>v c. replicate (nat c) v) ids counts))) = sum_list counts"
  by (induction ids counts rule: list_induct2) auto

lemma expand_indptr_Inr:
  assumes "expand_indptr p dt m n = Inr r"
  defines "ncols \<equiv> length p - 1"
  defines "ids \<equiv> (case m of None \<Rightarrow> map int [0..<ncols] | Some x \<Rightarrow> vals x)"
  defines "counts \<equiv> map (\<lambda>j. p ! Suc j - p ! j) [0..<ncols]"
  shows "p \<noteq> [] \<and> length ids = ncols \<and> list_all (\<lambda>c. 0 \<le> c) counts
     \<and> sum_list counts = int n
     \<and> r = IdTensor dt (concat (map2 (\<lambda>v c. replicate (nat c) v) ids counts))"
  using assms(1) unfolding expand_indptr_def Let_def ncols_def ids_def counts_def
  by (simp split: if_splits del: One_nat_def)

lemma expand_indptr_length:
  assumes "expand_indptr p dt m n = Inr r"
  shows "length (vals r) = n \<and> dtype r = dt"
proof -
  define ncols where "ncols = length p - 1"
  define ids where "ids = (case m of None \<Rightarrow> map int [0..<ncols] | Some x \<Rightarrow> vals x)"
  define counts where "counts = map (\<lambda>j. p ! Suc j - p ! j) [0..<ncols]"
  from expand_indptr_Inr [OF assms] have
    len: "length ids = length counts" and nonneg: "list_all (\<lambda>c. 0 \<le> c) counts"
    and total: "sum_list counts = int n"
    and r: "r = IdTensor dt (concat (map2 (\<lambda>v c. replicate (nat c) v) ids counts))"
    by (simp_all add: ncols_def ids_def counts_def del: One_nat_def cong: option.case_cong)
  from length_concat_replicate [OF len nonneg] r total show ?thesis by simp
qed

text \<open>
  What a successful \<open>_to_reverse_ids\<close> went through: both id maps were \<open>None\<close> or a
  tensor, the rows resolved, and the columns expanded in the dtype of the rows.
\<close>

lemma to_reverse_ids_Inr:
  assumes "to_reverse_ids c rows cols = Inr r"
  obtains rm cm where "rows = map_option Homo rm" "cols = map_option Homo cm"
    "(case rm of None \<Rightarrow> Inr (indices c) | Some m \<Rightarrow> index_select m (vals (indices c)))
       = Inr (fst r)"
    "expand_indptr (indptr c) (dtype (fst r)) cm (length (vals (fst r))) = Inr (snd r)"
proof -
  from assms obtain rm where rm: "as_tensor TypeError rows = Inr rm"
    by (auto simp: to_reverse_ids_def split: sum.splits)
  then have rows: "rows = map_option Homo rm"
    by (cases "(TypeError, rows)" rule: as_tensor.cases) auto
  from assms rm obtain inds where inds:
    "(case rm of None \<Rightarrow> Inr (indices c) | Some m \<Rightarrow> index_select m (vals (indices c)))
       = Inr inds"
    by (auto simp: to_reverse_ids_def split: sum.splits)
  from assms rm inds obtain cm where cm: "as_tensor AttributeError cols = Inr cm"
    by (auto simp: to_reverse_ids_def split: sum.splits)
  then have cols: "cols = map_option Homo cm"
    by (cases "(AttributeError, cols)" rule: as_tensor.cases) auto
  from assms rm inds cm have
    "expand_indptr (indptr c) (dtype inds) cm (length (vals inds)) = Inr (snd r)"
    "fst r = inds"
    by (auto simp: to_reverse_ids_def split: sum.splits)
  with rows cols inds that show ?thesis by simp
qed

lemma as_tensor_Homo: "as_tensor e (map_option Homo m) = Inr m"
  by (cases m) simp_all

lemma index_select_length: "index_select m index = Inr t \<Longrightarrow> length (vals t) = length index"
  by (auto simp: index_select_def split: if_splits)

lemma to_reverse_ids_length:
  assumes "to_reverse_ids c rows cols = Inr r"
  shows "length (vals (fst r)) = length (vals (indices c))
     \<and> length (vals (snd r)) = length (vals (indices c))"
proof -
  from assms obtain rm cm where
    i: "(case rm of None \<Rightarrow> Inr (indices c) | Some m \<Rightarrow> index_select m (vals (indices c)))
       = Inr (fst r)"
    and p: "expand_indptr (indptr c) (dtype (fst r)) cm (length (vals (fst r))) = Inr (snd r)"
    by (rule to_reverse_ids_Inr)
  have "length (vals (fst r)) = length (vals (indices c))"
  proof (cases rm)
    case None
    with i show ?thesis by simp
  next
    case (Some m)
    with i have "index_select m (vals (indices c)) = Inr (fst r)" by simp
    then show ?thesis by (rule index_select_length)
  qed
  with p show ?thesis by (auto dest: expand_indptr_length)
qed

text \<open>The loop of \<open>_index_select\<close> over a \<open>dict\<close>, entry by entry.\<close>

lemma index_select_items_sliced:
  assumes "\<forall>kv \<in> set items.
      (case map_of index (fst kv) of
         None \<Rightarrow> False
       | Some None \<Rightarrow> True
       | Some (Some t) \<Rightarrow> leaf (snd kv) t = Inr (f (snd kv) t))"
  shows "index_select_items leaf items index = Inr (map (slice_entry f index) items)"
  using assms
proof (induction items)
  case Nil
  then show ?case by simp
next
  case (Cons kv items)
  obtain k v where kv: "kv = (k, v)" by (cases kv)
  from Cons.prems obtain i where i: "map_of index k = Some i"
    by (auto simp: kv split: option.splits)
  have here: "(case i of None \<Rightarrow> Inr v | Some t \<Rightarrow> leaf v t) = Inr (snd (slice_entry f index (k, v)))"
    using Cons.prems i by (cases i) (auto simp: kv slice_entry_def)
  from Cons have rest: "index_select_items leaf items index = Inr (map (slice_entry f index) items)"
    by simp
  have "slice_entry f index (k, v) = (k, snd (slice_entry f index (k, v)))"
    by (simp add: slice_entry_def)
  then show ?case
    using i here rest by (simp add: kv)
qed

lemma slice_subgraph_hetero_sliced:
  assumes "sampled_csc h = Hetero items" "list_all (index_serves index) items"
    and "original_edge_ids h = map_option Hetero edge_ids"
    and "\<forall>eids. edge_ids = Some eids \<longrightarrow>
           list_all (\<lambda>ke. case map_of items (fst ke) of
                            None \<Rightarrow> False
                          | Some c \<Rightarrow> length (snd ke) = length (vals (indices c))) eids"
  shows "slice_subgraph h (Hetero index) =
           Inr (h\<lparr>sampled_csc := Hetero (map (slice_entry sliced_csc index) items),
                  original_edge_ids :=
                    map_option (\<lambda>eids. Hetero (map (slice_entry gather index) eids)) edge_ids\<rparr>)"
proof -
  have serve: "index_serves index (k, c)" if "(k, c) \<in> set items" for k c
    using assms(2) that by (auto simp: list_all_iff)
  have "\<forall>kv \<in> set items.
      (case map_of index (fst kv) of
         None \<Rightarrow> False
       | Some None \<Rightarrow> True
       | Some (Some t) \<Rightarrow> select_csc (snd kv) t = Inr (sliced_csc (snd kv) t))"
  proof
    fix kv assume "kv \<in> set items"
    then have "index_serves index (fst kv, snd kv)"
      using serve [of "fst kv" "snd kv"] by simp
    then show "case map_of index (fst kv) of
         None \<Rightarrow> False
       | Some None \<Rightarrow> True
       | Some (Some t) \<Rightarrow> select_csc (snd kv) t = Inr (sliced_csc (snd kv) t)"
      by (auto simp: index_serves_def select_csc_positions split: option.splits)
  qed
  then have sel: "index_select_items select_csc items index
      = Inr (map (slice_entry sliced_csc index) items)"
    by (rule index_select_items_sliced)
  have ids: "index_select_obj getitem (original_edge_ids h) (Hetero index) =
      Inr (map_option (\<lambda>eids. Hetero (map (slice_entry gather index) eids)) edge_ids)"
  proof (cases edge_ids)
    case None
    with assms(3) show ?thesis by simp
  next
    case (Some eids)
    have "\<forall>ke \<in> set eids.
        (case map_of index (fst ke) of
           None \<Rightarrow> False
         | Some None \<Rightarrow> True
         | Some (Some t) \<Rightarrow> getitem (snd ke) t = Inr (gather (snd ke) t))"
    proof
      fix ke assume "ke \<in> set eids"
      with Some assms(4) obtain c where c: "map_of items (fst ke) = Some c"
        "length (snd ke) = length (vals (indices c))"
        by (auto simp: list_all_iff split: option.splits)
      from c(1) have "(fst ke, c) \<in> set items" by (rule map_of_SomeD)
      from serve [OF this] c(2) show "case map_of index (fst ke) of
           None \<Rightarrow> False
         | Some None \<Rightarrow> True
         | Some (Some t) \<Rightarrow> getitem (snd ke) t = Inr (gather (snd ke) t)"
        by (auto simp: index_serves_def positions_of_def getitem_positions
            split: option.splits)
    qed
    then have "index_select_items getitem eids index
        = Inr (map (slice_entry gather index) eids)"
      by (rule index_select_items_sliced)
    with Some assms(3) show ?thesis by simp
  qed
  show ?thesis
    using assms(1) by (simp add: slice_subgraph_def sel ids)
qed

text \<open>
  Claim C3. For an ascending retain index of positions of the edges, the slicer returns
  the subgraph whose \<open>indices\<close> are the old ones gathered at the retain index, whose
  \<open>indptr[j]\<close> is, for every \<open>j\<close> from 0 to the number of columns, the number of
  retain-index entries strictly less than the old \<open>indptr[j]\<close>, and whose edge ids,
  when present (and aligned with \<open>indices\<close>), are the old ones gathered at the same
  retain index; the id maps of the nodes are passed on. With \<open>None\<close> as retain index
  the subgraph is returned unchanged. With a per-relation mapping of retain indices
  every relation of a heterogeneous subgraph is sliced so, at its own retain index, and
  a relation whose retain index is \<open>None\<close> is passed on.
\<close>

theorem slice_subgraph_sliced:
  "(sampled_csc g = Homo c \<and> positions_of (length (vals (indices c))) index
      \<and> original_edge_ids g = map_option Homo edge_ids
      \<and> (\<forall>e. edge_ids = Some e \<longrightarrow> length e = length (vals (indices c)))
    \<longrightarrow> slice_subgraph g (Homo (Some index)) =
           Inr (g\<lparr>sampled_csc := Homo (sliced_csc c index),
                  original_edge_ids :=
                    map_option (\<lambda>e. Homo (gather e index)) edge_ids\<rparr>))
   \<and> slice_subgraph g (Homo None) = Inr g
   \<and> (sampled_csc h = Hetero items \<and> list_all (index_serves hindex) items
      \<and> original_edge_ids h = map_option Hetero hedge_ids
      \<and> (\<forall>eids. hedge_ids = Some eids \<longrightarrow>
           list_all (\<lambda>ke. case map_of items (fst ke) of
                            None \<Rightarrow> False
                          | Some c \<Rightarrow> length (snd ke) = length (vals (indices c))) eids)
    \<longrightarrow> slice_subgraph h (Hetero hindex) =
           Inr (h\<lparr>sampled_csc := Hetero (map (slice_entry sliced_csc hindex) items),
                  original_edge_ids :=
                    map_option (\<lambda>eids. Hetero (map (slice_entry gather hindex) eids))
                      hedge_ids\<rparr>))"
proof -
  have homo: "slice_subgraph g (Homo (Some index)) =
           Inr (g\<lparr>sampled_csc := Homo (sliced_csc c index),
                  original_edge_ids :=
                    map_option (\<lambda>e. Homo (gather e index)) edge_ids\<rparr>)"
    if c: "sampled_csc g = Homo c" and pos: "positions_of (length (vals (indices c))) index"
      and ids: "original_edge_ids g = map_option Homo edge_ids"
      and aligned: "\<forall>e. edge_ids = Some e \<longrightarrow> length e = length (vals (indices c))"
  proof -
    have csc: "index_select_obj select_csc (Some (sampled_csc g)) (Homo (Some index)) =
        Inr (Some (Homo (sliced_csc c index)))"
      using c pos by (simp add: select_csc_positions)
    have "index_select_obj getitem (original_edge_ids g) (Homo (Some index)) =
        Inr (map_option (\<lambda>e. Homo (gather e index)) edge_ids)"
    proof (cases edge_ids)
      case None
      with ids show ?thesis by simp
    next
      case (Some e)
      with aligned have "length e = length (vals (indices c))" by simp
      with pos have "getitem e index = Inr (gather e index)"
        by (simp add: getitem_positions positions_of_def)
      with Some ids show ?thesis by simp
    qed
    with csc show ?thesis by (simp add: slice_subgraph_def)
  qed
  have "index_select_obj getitem (original_edge_ids g) (Homo None) = Inr (original_edge_ids g)"
    by (cases "original_edge_ids g") auto
  then have none: "slice_subgraph g (Homo None) = Inr g"
    by (simp add: slice_subgraph_def)
  from homo none slice_subgraph_hetero_sliced show ?thesis by blast
qed

theorem slice_subgraph_sliced_witness:
  "positions_of 3 [0]
   \<and> slice_subgraph example_homo (Homo (Some [0])) = Inr example_homo_result
   \<and> slice_subgraph example_homo (Homo None) = Inr example_homo
   \<and> list_all (index_serves [(''A:relation:B'', Some [0]), (''B:follows:A'', None)])
        [(''A:relation:B'', example_csc), (''B:follows:A'', example_other_csc)]
   \<and> slice_subgraph example_two_relations
        (Hetero [(''A:relation:B'', Some [0]), (''B:follows:A'', None)])
     = Inr example_two_relations_result"
proof -
  let ?items = "[(''A:relation:B'', example_csc), (''B:follows:A'', example_other_csc)]"
  let ?index = "[(''A:relation:B'', Some [0]), (''B:follows:A'', None)]"
  let ?eids = "[(''A:relation:B'', [19, 20, 21]), (''B:follows:A'', [30, 31, 32 :: int])]"
  have three: "positions_of 3 [0]"
    by (simp add: positions_of_def)
  have c: "sampled_csc example_homo = Homo example_csc"
    and ids: "original_edge_ids example_homo = map_option Homo (Some [19, 20, 21])"
    by (simp_all add: example_homo_def)
  have pos: "positions_of (length (vals (indices example_csc))) [0]"
    by (simp add: positions_of_def example_csc_def)
  have aligned: "\<forall>e. Some [19, 20, 21] = Some e
      \<longrightarrow> length e = length (vals (indices example_csc))"
    by (simp add: example_csc_def)
  have items: "sampled_csc example_two_relations = Hetero ?items"
    and hids: "original_edge_ids example_two_relations = map_option Hetero (Some ?eids)"
    by (simp_all add: example_two_relations_def)
  have serves: "list_all (index_serves ?index) ?items"
    by (simp add: index_serves_def positions_of_def example_csc_def)
  have haligned: "\<forall>eids. Some ?eids = Some eids \<longrightarrow>
      list_all (\<lambda>ke. case map_of ?items (fst ke) of
                       None \<Rightarrow> False
                     | Some c \<Rightarrow> length (snd ke) = length (vals (indices c))) eids"
    by (simp add: example_csc_def example_other_csc_def)
  from slice_subgraph_sliced
    [of example_homo example_csc "[0]" "Some [19, 20, 21]"
      example_two_relations ?items ?index "Some ?eids"]
    c ids pos aligned items hids serves haligned
  have homo: "slice_subgraph example_homo (Homo (Some [0])) =
      Inr (example_homo\<lparr>sampled_csc := Homo (sliced_csc example_csc [0]),
             original_edge_ids := map_option (\<lambda>e. Homo (gather e [0])) (Some [19, 20, 21])\<rparr>)"
    and none: "slice_subgraph example_homo (Homo None) = Inr example_homo"
    and hetero: "slice_subgraph example_two_relations (Hetero ?index) =
      Inr (example_two_relations
             \<lparr>sampled_csc := Hetero (map (slice_entry sliced_csc ?index) ?items),
              original_edge_ids :=
                map_option (\<lambda>eids. Hetero (map (slice_entry gather ?index) eids))
                  (Some ?eids)\<rparr>)"
    by blast+
  have "example_homo\<lparr>sampled_csc := Homo (sliced_csc example_csc [0]),
      original_edge_ids := map_option (\<lambda>e. Homo (gather e [0])) (Some [19, 20, 21])\<rparr>
      = example_homo_result"
    by (simp add: example_homo_def example_homo_result_def example_csc_def
        example_sliced_csc_def sliced_csc_def count_less_def gather_def)
  with homo have r1: "slice_subgraph example_homo (Homo (Some [0])) = Inr example_homo_result"
    by simp
  have "example_two_relations
      \<lparr>sampled_csc := Hetero (map (slice_entry sliced_csc ?index) ?items),
       original_edge_ids :=
         map_option (\<lambda>eids. Hetero (map (slice_entry gather ?index) eids)) (Some ?eids)\<rparr>
      = example_two_relations_result"
    by (simp add: example_two_relations_def example_two_relations_result_def example_csc_def
        example_sliced_csc_def example_other_csc_def sliced_csc_def slice_entry_def
        count_less_def gather_def)
  with hetero have r2: "slice_subgraph example_two_relations (Hetero ?index)
      = Inr example_two_relations_result"
    by simp
  from three r1 none serves r2 show ?thesis by blast
qed

section \<open>What a successful call went through\<close>

lemma index_select_items_Inr:
  "index_select_items leaf items index = Inr items' \<Longrightarrow>
     list_all2 (item_sliced leaf index) items items'"
proof (induction items arbitrary: items')
  case Nil
  then show ?case by simp
next
  case (Cons kv items)
  obtain k v where kv: "kv = (k, v)" by (cases kv)
  from Cons.prems obtain i v' rest where
    i: "map_of index k = Some i"
    and v': "(case i of None \<Rightarrow> Inr v | Some t \<Rightarrow> leaf v t) = Inr v'"
    and rest: "index_select_items leaf items index = Inr rest"
    and items': "items' = (k, v') # rest"
    unfolding kv by (auto split: option.splits sum.splits)
  from i v' have "item_sliced leaf index (k, v) (k, v')"
    by (cases i) (auto simp: item_sliced_def)
  with Cons.IH [OF rest] show ?case
    by (simp add: kv items')
qed

lemma slice_subgraph_Inr:
  assumes "slice_subgraph g index = Inr g'"
  shows "index_select_obj select_csc (Some (sampled_csc g)) index = Inr (Some (sampled_csc g'))
     \<and> index_select_obj getitem (original_edge_ids g) index = Inr (original_edge_ids g')
     \<and> original_column_node_ids g' = original_column_node_ids g
     \<and> original_row_node_ids g' = original_row_node_ids g"
  using assms unfolding slice_subgraph_def
  by (auto split: sum.splits option.splits)

lemma exclude_edges_homo_Inr:
  assumes "exclude_edges g edges flag = Inr g'" "sampled_csc g = Homo c"
  obtains x r index where "flag" "edges = Homo x"
    "to_reverse_ids c (original_row_node_ids g) (original_column_node_ids g) = Inr r"
    "exclude_one r x True = Inr index"
    "slice_subgraph g (Homo (Some index)) = Inr g'"
proof -
  from assms have flag: flag by (auto simp: exclude_edges_def split: if_splits)
  from assms obtain x where x: "edges = Homo x"
    by (cases edges) (auto simp: exclude_edges_def split: if_splits)
  from assms flag x that show ?thesis
    by (auto simp: exclude_edges_def split: sum.splits)
qed

lemma exclude_edges_hetero_Inr:
  assumes "exclude_edges g edges flag = Inr g'" "sampled_csc g = Hetero items"
  obtains d index where "flag" "edges = Hetero d"
    "index_of_relations g d True items = Inr index"
    "slice_subgraph g (Hetero index) = Inr g'"
proof -
  from assms have flag: flag by (auto simp: exclude_edges_def split: if_splits)
  from assms obtain d where d: "edges = Hetero d"
    by (cases edges) (auto simp: exclude_edges_def split: if_splits)
  from assms flag d that show ?thesis
    by (auto simp: exclude_edges_def split: sum.splits)
qed

lemma index_of_relation_positions:
  assumes "index_of_relation g d flag etype pair = Inr (Some i)"
  shows "positions_of (length (vals (indices pair))) i"
proof -
  from assms obtain rm cm r x where r: "to_reverse_ids pair rm cm = Inr r"
    and i: "exclude_one r x flag = Inr i"
    by (auto simp: index_of_relation_def split: option.splits sum.splits prod.splits)
  from to_reverse_ids_length [OF r] exclude_one_positions [OF i] show ?thesis by simp
qed

lemma index_of_relations_Inr:
  "index_of_relations g d flag items = Inr index \<Longrightarrow>
     list_all2 (\<lambda>(k, c) (k', i). k' = k \<and> index_of_relation g d flag k c = Inr i) items index"
proof (induction items arbitrary: index)
  case Nil
  then show ?case by simp
next
  case (Cons kv items)
  obtain k v where kv: "kv = (k, v)" by (cases kv)
  from Cons.prems Cons.IH show ?case
    unfolding kv by (auto split: sum.splits)
qed

text \<open>In a dict, the entry of a key is the one that was stored for it.\<close>

lemma map_of_list_all2:
  assumes "list_all2 (\<lambda>(k, v) (k', i). k' = k \<and> P k v i) items index"
    and "distinct (map fst items)" "(k, v) \<in> set items"
  shows "\<exists>i. map_of index k = Some i \<and> P k v i"
proof -
  from assms(3) obtain j where j: "j < length items" "items ! j = (k, v)"
    by (auto simp: in_set_conv_nth)
  from assms(1) have len: "length index = length items"
    by (simp add: list_all2_lengthD)
  have keys: "map fst index = map fst items"
    using assms(1) by (induction rule: list_all2_induct) auto
  obtain k' i where ki: "index ! j = (k', i)" by (cases "index ! j")
  from assms(1) j ki have "k' = k \<and> P k v i"
    by (auto simp: list_all2_conv_all_nth split: prod.splits)
  moreover have "(k', i) \<in> set index"
    using j len ki by (metis nth_mem)
  moreover have "distinct (map fst index)" using keys assms(2) by simp
  ultimately show ?thesis by (auto intro: map_of_is_SomeI)
qed

section \<open>Slicing keeps the structure valid\<close>

lemma select_csc_kept_columns:
  assumes "valid_csc c" "positions_of (length (vals (indices c))) index"
  shows "\<exists>c'. select_csc c index = Inr c' \<and> kept_columns c c'"
  using select_csc_positions [OF assms(2)] valid_csc_sliced [OF assms]
  by (simp add: kept_columns_def sliced_csc_def)

lemma exclude_edges_homo_kept_columns:
  assumes "sampled_csc g = Homo c" "valid_csc c" "exclude_edges g edges flag = Inr g'"
  shows "\<exists>c'. sampled_csc g' = Homo c' \<and> kept_columns c c'"
proof -
  from assms(3,1) obtain x r index where
    r: "to_reverse_ids c (original_row_node_ids g) (original_column_node_ids g) = Inr r"
    and i: "exclude_one r x True = Inr index"
    and s: "slice_subgraph g (Homo (Some index)) = Inr g'"
    by (rule exclude_edges_homo_Inr)
  from to_reverse_ids_length [OF r] exclude_one_positions [OF i]
  have pos: "positions_of (length (vals (indices c))) index" by simp
  from select_csc_kept_columns [OF assms(2) pos] obtain c' where
    c': "select_csc c index = Inr c'" "kept_columns c c'" by blast
  from slice_subgraph_Inr [OF s] assms(1) c'(1) have "sampled_csc g' = Homo c'"
    by simp
  with c'(2) show ?thesis by blast
qed

lemma exclude_edges_hetero_kept_columns:
  assumes "sampled_csc h = Hetero items" "distinct (map fst items)"
    and "list_all (\<lambda>kv. valid_csc (snd kv)) items"
    and "exclude_edges h edges flag = Inr h'"
  shows "\<exists>items'. sampled_csc h' = Hetero items'
     \<and> list_all2 (\<lambda>kv kv'. fst kv' = fst kv \<and> kept_columns (snd kv) (snd kv')) items items'"
proof -
  from assms(4,1) obtain d index where
    idx: "index_of_relations h d True items = Inr index"
    and s: "slice_subgraph h (Hetero index) = Inr h'"
    by (rule exclude_edges_hetero_Inr)
  from slice_subgraph_Inr [OF s] assms(1) obtain items' where
    sel: "index_select_items select_csc items index = Inr items'"
    and res: "sampled_csc h' = Hetero items'"
    by (auto split: sum.splits)
  have sliced: "list_all2 (item_sliced select_csc index) items items'"
    using sel by (rule index_select_items_Inr)
  have "list_all2 (\<lambda>kv kv'. fst kv' = fst kv \<and> kept_columns (snd kv) (snd kv')) items items'"
  proof (rule list_all2_all_nthI)
    show "length items = length items'"
      using sliced by (rule list_all2_lengthD)
  next
    fix j assume j: "j < length items"
    obtain k c where kc: "items ! j = (k, c)" by (cases "items ! j")
    from j kc have mem: "(k, c) \<in> set items" by (metis nth_mem)
    with assms(3) have valid: "valid_csc c" by (auto simp: list_all_iff)
    from sliced j have js: "item_sliced select_csc index (items ! j) (items' ! j)"
      by (simp add: list_all2_conv_all_nth)
    from map_of_list_all2 [OF index_of_relations_Inr [OF idx] assms(2) mem]
    obtain i where i: "map_of index k = Some i" "index_of_relation h d True k c = Inr i"
      by blast
    show "fst (items' ! j) = fst (items ! j)
        \<and> kept_columns (snd (items ! j)) (snd (items' ! j))"
    proof (cases i)
      case None
      with js i(1) kc valid show ?thesis
        by (simp add: item_sliced_def kept_columns_def)
    next
      case (Some t)
      with i(2) have "positions_of (length (vals (indices c))) t"
        by (simp add: index_of_relation_positions)
      from select_csc_kept_columns [OF valid this] js i(1) kc Some show ?thesis
        by (auto simp: item_sliced_def)
    qed
  qed
  with res show ?thesis by blast
qed

text \<open>
  Claim C2. Slicing preserves the CSC validity invariant. The structure that \<open>_index_select\<close>
  builds from a valid structure and a retain index is valid (\<open>indptr\<close> non-decreasing,
  first entry 0, last entry the number of retained edges) and has as many \<open>indptr\<close> entries,
  hence columns, as the input; so has the \<open>sampled_csc\<close> of every result of
  \<open>exclude_edges\<close> on a homogeneous subgraph, and so has every relation of the result on a
  heterogeneous subgraph, whose relation keys stay the same.
\<close>

theorem sliced_csc_valid:
  "(valid_csc c \<and> positions_of (length (vals (indices c))) index \<longrightarrow>
      (\<exists>c'. select_csc c index = Inr c' \<and> kept_columns c c'))
   \<and> (sampled_csc g = Homo c \<and> valid_csc c \<and> exclude_edges g edges flag = Inr g' \<longrightarrow>
      (\<exists>c'. sampled_csc g' = Homo c' \<and> kept_columns c c'))
   \<and> (sampled_csc h = Hetero items \<and> distinct (map fst items)
        \<and> list_all (\<lambda>kv. valid_csc (snd kv)) items
        \<and> exclude_edges h hedges hflag = Inr h' \<longrightarrow>
      (\<exists>items'. sampled_csc h' = Hetero items'
         \<and> list_all2 (\<lambda>kv kv'. fst kv' = fst kv \<and> kept_columns (snd kv) (snd kv'))
              items items'))"
  using select_csc_kept_columns exclude_edges_homo_kept_columns
    exclude_edges_hetero_kept_columns
  by blast

text \<open>The two examples run as the docstring says.\<close>

lemma example_homo_run:
  "exclude_edges example_homo (Homo example_edges) True = Inr example_homo_result"
  by code_simp

lemma example_hetero_run:
  "exclude_edges example_hetero (Hetero [(''A:relation:B'', example_edges)]) True
     = Inr example_hetero_result"
  by code_simp

theorem sliced_csc_valid_witness:
  "valid_csc example_csc \<and> positions_of 3 [0]
   \<and> select_csc example_csc [0] = Inr example_sliced_csc
   \<and> exclude_edges example_homo (Homo example_edges) True = Inr example_homo_result
   \<and> exclude_edges example_hetero (Hetero [(''A:relation:B'', example_edges)]) True
        = Inr example_hetero_result
   \<and> kept_columns example_csc example_sliced_csc"
proof -
  have valid: "valid_csc example_csc"
    by (simp add: valid_csc_def example_csc_def)
  have pos: "positions_of (length (vals (indices example_csc))) [0]"
    by (simp add: positions_of_def example_csc_def)
  have pos3: "positions_of 3 [0]"
    by (simp add: positions_of_def)
  have sel: "select_csc example_csc [0] = Inr example_sliced_csc"
    by code_simp
  have homo: "sampled_csc example_homo = Homo example_csc"
    and homo': "sampled_csc example_homo_result = Homo example_sliced_csc"
    by (simp_all add: example_homo_def example_homo_result_def)
  have hetero: "sampled_csc example_hetero = Hetero [(''A:relation:B'', example_csc)]"
    and hetero': "sampled_csc example_hetero_result
       = Hetero [(''A:relation:B'', example_sliced_csc)]"
    by (simp_all add: example_hetero_def example_hetero_result_def)
  from sliced_csc_valid
    [of example_csc "[0]" example_homo "Homo example_edges" True example_homo_result
      example_hetero "[(''A:relation:B'', example_csc)]"
      "Hetero [(''A:relation:B'', example_edges)]" True example_hetero_result]
    valid pos pos3 sel homo homo' hetero hetero' example_homo_run example_hetero_run
  show ?thesis
    by simp
qed

section \<open>The reverse-id resolver\<close>

lemma expanded_Suc:
  "expanded ptr ids (Suc m) = expanded ptr ids m @ replicate (nat (ptr ! Suc m - ptr ! m)) (ids ! m)"
  by (simp add: expanded_def)

lemma length_expanded:
  assumes "sorted ptr" "ptr ! 0 = 0"
  shows "m < length ptr \<Longrightarrow> int (length (expanded ptr ids m)) = ptr ! m"
proof (induction m)
  case 0
  then show ?case using assms(2) by (simp add: expanded_def)
next
  case (Suc m)
  then have "ptr ! m \<le> ptr ! Suc m"
    using assms(1) by (simp add: sorted_iff_nth_Suc)
  with Suc show ?case by (simp add: expanded_Suc)
qed

lemma expanded_prefix:
  "j \<le> m \<Longrightarrow> \<exists>rest. expanded ptr ids m = expanded ptr ids j @ rest"
proof (induction m)
  case 0
  then show ?case by simp
next
  case (Suc m)
  show ?case
  proof (cases "j = Suc m")
    case True
    then show ?thesis by simp
  next
    case False
    with Suc.prems have "j \<le> m" by simp
    from Suc.IH [OF this] show ?thesis by (auto simp: expanded_Suc)
  qed
qed

lemma expanded_nth:
  assumes "sorted ptr" "ptr ! 0 = 0" "Suc j \<le> m" "m < length ptr"
    and "ptr ! j \<le> int i" "int i < ptr ! Suc j"
  shows "expanded ptr ids m ! i = ids ! j"
proof -
  have lj: "int (length (expanded ptr ids j)) = ptr ! j"
    using assms(1-4) by (intro length_expanded) auto
  obtain rest where "expanded ptr ids m = expanded ptr ids (Suc j) @ rest"
    using expanded_prefix [OF assms(3)] by blast
  then have split: "expanded ptr ids m
      = expanded ptr ids j @ replicate (nat (ptr ! Suc j - ptr ! j)) (ids ! j) @ rest"
    by (simp add: expanded_Suc)
  have ge: "length (expanded ptr ids j) \<le> i" using lj assms(5) by linarith
  have lt: "i - length (expanded ptr ids j) < nat (ptr ! Suc j - ptr ! j)"
    using lj assms(5,6) by linarith
  show ?thesis
    unfolding split using ge lt by (simp add: nth_append)
qed

lemma map2_as_map_upt:
  "length xs = length ys \<Longrightarrow> map2 f xs ys = map (\<lambda>j. f (xs ! j) (ys ! j)) [0..<length xs]"
  by (auto intro!: nth_equalityI)

lemma concat_map2_expanded:
  assumes "length ids = n"
  shows "concat (map2 (\<lambda>v c. replicate (nat c) v) ids (map (\<lambda>j. ptr ! Suc j - ptr ! j) [0..<n]))
       = expanded ptr ids n"
proof -
  have "map2 (\<lambda>v c. replicate (nat c) v) ids (map (\<lambda>j. ptr ! Suc j - ptr ! j) [0..<n])
      = map (\<lambda>j. replicate (nat (ptr ! Suc j - ptr ! j)) (ids ! j)) [0..<n]"
    using assms by (auto intro!: nth_equalityI)
  then show ?thesis by (simp add: expanded_def)
qed

lemma expand_indptr_valid:
  assumes "ptr \<noteq> []" "sorted ptr" "hd ptr = 0" "last ptr = int n"
    and "\<forall>m. column_map = Some m \<longrightarrow> length (vals m) = length ptr - 1"
  shows "expand_indptr ptr dt column_map n =
     Inr (IdTensor dt
            (expanded ptr (map (column_id column_map) [0..<length ptr - 1]) (length ptr - 1)))"
proof -
  define ncols where "ncols = length ptr - 1"
  define ids where "ids = (case column_map of None \<Rightarrow> map int [0..<ncols] | Some m \<Rightarrow> vals m)"
  define counts where "counts = map (\<lambda>j. ptr ! Suc j - ptr ! j) [0..<ncols]"
  have len: "length ids = ncols"
    using assms(5) by (auto simp: ids_def ncols_def split: option.splits)
  have ids: "ids = map (column_id column_map) [0..<ncols]"
    using len by (auto simp: ids_def column_id_def intro!: nth_equalityI split: option.splits)
  have nonneg: "list_all (\<lambda>c. 0 \<le> c) counts"
    using assms(2) by (auto simp: counts_def list_all_iff ncols_def sorted_iff_nth_Suc)
  have ptr0: "ptr ! 0 = 0" using assms(1,3) by (simp add: hd_conv_nth)
  have ex: "concat (map2 (\<lambda>v c. replicate (nat c) v) ids counts) = expanded ptr ids ncols"
    unfolding counts_def using len by (rule concat_map2_expanded)
  have "sum_list counts = int (length (expanded ptr ids ncols))"
    using length_concat_replicate [of ids counts] len nonneg ex by (simp add: counts_def)
  also have "\<dots> = ptr ! ncols"
    using assms(1,2) ptr0 by (intro length_expanded) (auto simp: ncols_def)
  also have "\<dots> = int n"
    using assms(1,4) by (simp add: ncols_def last_conv_nth)
  finally have total: "sum_list counts = int n" .
  have "expand_indptr ptr dt column_map n
      = Inr (IdTensor dt (concat (map2 (\<lambda>v c. replicate (nat c) v) ids counts)))"
    using assms(1) len nonneg total
    unfolding expand_indptr_def Let_def ids_def counts_def ncols_def
    by (simp del: One_nat_def cong: option.case_cong)
  then have "expand_indptr ptr dt column_map n = Inr (IdTensor dt (expanded ptr ids ncols))"
    by (simp only: ex)
  then show ?thesis by (simp only: ids ncols_def)
qed

text \<open>
  Claim C4. For a valid CSC structure, a \<open>row_map\<close> (if any) that covers the local row ids
  in \<open>indices\<close> and a \<open>column_map\<close> (if any) with one entry for each column, the resolver
  returns two sequences as long as \<open>indices\<close>: \<open>orig_src[i]\<close> is \<open>row_map[indices[i]]\<close>, or
  \<open>indices[i]\<close> without a \<open>row_map\<close>, and \<open>orig_dst[i]\<close> is the id of the column \<open>j\<close> that
  owns edge \<open>i\<close> (\<open>indptr[j] \<le> i < indptr[j + 1]\<close>), that is \<open>column_map[j]\<close>, or \<open>j\<close>
  without a \<open>column_map\<close>. The sources have the dtype of the \<open>row_map\<close>, or of \<open>indices\<close>
  without one, and the destinations the dtype of the sources. The resolver is a function
  of its three arguments alone.
\<close>

theorem to_reverse_ids_resolves:
  assumes "valid_csc c"
    and "\<forall>m. row_map = Some m \<longrightarrow>
           list_all (\<lambda>v. 0 \<le> v \<and> v < int (length (vals m))) (vals (indices c))"
    and "\<forall>m. column_map = Some m \<longrightarrow> length (vals m) = length (indptr c) - 1"
  shows "\<exists>src dst.
       to_reverse_ids c (map_option Homo row_map) (map_option Homo column_map) = Inr (src, dst)
     \<and> length (vals src) = length (vals (indices c))
     \<and> length (vals dst) = length (vals (indices c))
     \<and> (\<forall>i. i < length (vals (indices c)) \<longrightarrow>
            vals src ! i = row_id row_map (vals (indices c) ! i))
     \<and> (\<forall>j i. j < length (indptr c) - 1 \<and> indptr c ! j \<le> int i \<and> int i < indptr c ! Suc j
            \<longrightarrow> vals dst ! i = column_id column_map j)
     \<and> dtype src = (case row_map of None \<Rightarrow> dtype (indices c) | Some m \<Rightarrow> dtype m)
     \<and> dtype dst = dtype src"
proof -
  define dt where "dt = (case row_map of None \<Rightarrow> dtype (indices c) | Some m \<Rightarrow> dtype m)"
  define src where "src = IdTensor dt (map (row_id row_map) (vals (indices c)))"
  define ncols where "ncols = length (indptr c) - 1"
  define dst where
    "dst = IdTensor dt (expanded (indptr c) (map (column_id column_map) [0..<ncols]) ncols)"
  from assms(1) have ne: "indptr c \<noteq> []" and srt: "sorted (indptr c)"
    and first: "hd (indptr c) = 0" and lst: "last (indptr c) = int (length (vals (indices c)))"
    by (auto simp: valid_csc_def)
  have none: "indices c = IdTensor (dtype (indices c)) (map (\<lambda>v. v) (vals (indices c)))"
    by simp
  have rows: "(case row_map of None \<Rightarrow> Inr (indices c)
               | Some m \<Rightarrow> index_select m (vals (indices c))) = Inr src"
  proof (cases row_map)
    case None
    with none show ?thesis by (simp add: src_def dt_def row_id_def [abs_def])
  next
    case (Some m)
    with assms(2) show ?thesis
      by (simp add: src_def dt_def row_id_def [abs_def] index_select_def)
  qed
  have cols: "expand_indptr (indptr c) (dtype src) column_map (length (vals src)) = Inr dst"
    using expand_indptr_valid [OF ne srt first _ assms(3), of "length (vals src)" dt] lst
    by (simp add: src_def dst_def ncols_def)
  have run: "to_reverse_ids c (map_option Homo row_map) (map_option Homo column_map)
      = Inr (src, dst)"
    by (simp add: to_reverse_ids_def as_tensor_Homo rows cols)
  have len_dst: "length (vals dst) = length (vals (indices c))"
    using expand_indptr_length [OF cols] by (simp add: src_def)
  have ptr0: "indptr c ! 0 = 0" using ne first by (simp add: hd_conv_nth)
  have dst_nth: "vals dst ! i = column_id column_map j"
    if "j < ncols" "indptr c ! j \<le> int i" "int i < indptr c ! Suc j" for i j
  proof -
    have "expanded (indptr c) (map (column_id column_map) [0..<ncols]) ncols ! i
        = map (column_id column_map) [0..<ncols] ! j"
      using srt ptr0 _ _ that(2,3)
      by (rule expanded_nth) (use that(1) ne in \<open>auto simp: ncols_def\<close>)
    with that(1) show ?thesis by (simp add: dst_def)
  qed
  have "length (vals src) = length (vals (indices c))"
    and "\<forall>i. i < length (vals (indices c)) \<longrightarrow>
            vals src ! i = row_id row_map (vals (indices c) ! i)"
    and "dtype src = dt" and "dtype dst = dtype src"
    by (simp_all add: src_def dst_def)
  with run len_dst dst_nth show ?thesis
    unfolding ncols_def dt_def by blast
qed

theorem to_reverse_ids_resolves_witness:
  "valid_csc example_csc
   \<and> list_all (\<lambda>v. 0 \<le> v \<and> v < int (length (vals example_rows))) (vals (indices example_csc))
   \<and> length (vals example_columns) = length (indptr example_csc) - 1
   \<and> to_reverse_ids example_csc (Some (Homo example_rows)) (Some (Homo example_columns))
        = Inr (IdTensor Int64 [13, 14, 15], IdTensor Int64 [10, 11, 12])"
proof -
  have valid: "valid_csc example_csc"
    by (simp add: valid_csc_def example_csc_def)
  have rows: "list_all (\<lambda>v. 0 \<le> v \<and> v < int (length (vals example_rows)))
      (vals (indices example_csc))"
    by (simp add: example_csc_def example_rows_def)
  have cols: "length (vals example_columns) = length (indptr example_csc) - 1"
    by (simp add: example_csc_def example_columns_def)
  from to_reverse_ids_resolves [OF valid, of "Some example_rows" "Some example_columns"]
    rows cols
  obtain src dst where
    run: "to_reverse_ids example_csc (Some (Homo example_rows)) (Some (Homo example_columns))
      = Inr (src, dst)"
    and src: "\<And>i. i < length (vals (indices example_csc)) \<Longrightarrow>
       vals src ! i = row_id (Some example_rows) (vals (indices example_csc) ! i)"
    and dst: "\<And>j i. j < length (indptr example_csc) - 1 \<Longrightarrow> indptr example_csc ! j \<le> int i
       \<Longrightarrow> int i < indptr example_csc ! Suc j
       \<Longrightarrow> vals dst ! i = column_id (Some example_columns) j"
    and len: "length (vals src) = length (vals (indices example_csc))"
      "length (vals dst) = length (vals (indices example_csc))"
    and dt: "dtype src = dtype example_rows" "dtype dst = dtype src"
    by auto
  have "vals src ! 0 = 13" "vals src ! Suc 0 = 14" "vals src ! Suc (Suc 0) = 15"
    using src [of 0] src [of "Suc 0"] src [of "Suc (Suc 0)"]
    by (simp_all add: example_csc_def example_rows_def row_id_def)
  moreover have "length (vals src) = Suc (Suc (Suc 0))"
    using len by (simp add: example_csc_def)
  ultimately have "vals src = [13, 14, 15]"
    by (auto intro!: nth_equalityI simp: less_Suc_eq)
  with dt(1) have s: "src = IdTensor Int64 [13, 14, 15]"
    by (cases src) (simp add: example_rows_def)
  have "vals dst ! 0 = 10" "vals dst ! Suc 0 = 11" "vals dst ! Suc (Suc 0) = 12"
    using dst [of 0 0] dst [of "Suc 0" "Suc 0"] dst [of "Suc (Suc 0)" "Suc (Suc 0)"]
    by (simp_all add: example_csc_def example_columns_def column_id_def)
  moreover have "length (vals dst) = Suc (Suc (Suc 0))"
    using len by (simp add: example_csc_def)
  ultimately have "vals dst = [10, 11, 12]"
    by (auto intro!: nth_equalityI simp: less_Suc_eq)
  with dt(2) s have d: "dst = IdTensor Int64 [10, 11, 12]"
    by (cases dst) simp
  from run s d have
    "to_reverse_ids example_csc (Some (Homo example_rows)) (Some (Homo example_columns))
      = Inr (IdTensor Int64 [13, 14, 15], IdTensor Int64 [10, 11, 12])"
    by simp
  with valid rows cols show ?thesis by blast
qed

section \<open>What exclusion leaves alone\<close>

lemma item_sliced_map_of:
  assumes "list_all2 (item_sliced leaf index) items items'"
    and "map_of index k = None \<or> map_of index k = Some None"
  shows "map_of items' k = map_of items k"
  using assms
proof (induction rule: list_all2_induct)
  case Nil
  then show ?case by simp
next
  case (Cons kv items kv' items')
  then show ?case
    by (cases kv; cases kv') (auto simp: item_sliced_def)
qed

lemma item_sliced_keys:
  "list_all2 (item_sliced leaf index) items items' \<Longrightarrow> map fst items' = map fst items"
  by (induction rule: list_all2_induct) (auto simp: item_sliced_def)

lemma index_of_relation_absent:
  "map_of d k = None \<Longrightarrow> index_of_relation g d flag k c = Inr None"
  by (simp add: index_of_relation_def)

lemma index_absent:
  assumes "list_all2 (\<lambda>(k, c) (k', i). k' = k \<and> index_of_relation g d flag k c = Inr i) items index"
    and "map_of d k = None"
  shows "map_of index k = None \<or> map_of index k = Some None"
  using assms
proof (induction rule: list_all2_induct)
  case Nil
  then show ?case by simp
next
  case (Cons kc items ki index)
  then show ?case
    by (cases kc; cases ki) (auto simp: index_of_relation_absent)
qed

lemma index_select_obj_hetero_Inr:
  assumes "index_select_obj leaf (Some (Hetero items)) (Hetero index) = Inr r"
  shows "\<exists>items'. r = Some (Hetero items') \<and> index_select_items leaf items index = Inr items'"
  using assms by (auto split: sum.splits)

lemma index_select_obj_edge_ids_hetero:
  assumes "index_select_obj leaf obj (Hetero index) = Inr r"
  shows "(obj = None \<and> r = None)
     \<or> (\<exists>eids eids'. obj = Some (Hetero eids) \<and> r = Some (Hetero eids')
           \<and> index_select_items leaf eids index = Inr eids')"
  using assms
  by (cases "(leaf, obj, Hetero index :: index)" rule: index_select_obj.cases)
     (auto split: sum.splits)

text \<open>
  Claim C6. A successful \<open>exclude_edges\<close> hands on \<open>original_row_node_ids\<close> and
  \<open>original_column_node_ids\<close> as they are, for every node type. On a heterogeneous
  subgraph the result has the relation keys of the input, and a relation that the
  exclusion set does not name keeps its structure (\<open>indptr\<close> and \<open>indices\<close>) and its edge
  ids: excluding edges of one relation never alters another.
\<close>

theorem exclude_edges_frame:
  "(exclude_edges g edges flag = Inr g' \<longrightarrow>
      original_row_node_ids g' = original_row_node_ids g
      \<and> original_column_node_ids g' = original_column_node_ids g)
   \<and> (exclude_edges h (Hetero d) hflag = Inr h' \<and> map_of d k = None \<longrightarrow>
      (\<exists>items items'. sampled_csc h = Hetero items \<and> sampled_csc h' = Hetero items'
         \<and> map fst items' = map fst items \<and> map_of items' k = map_of items k)
      \<and> (original_edge_ids h = None \<and> original_edge_ids h' = None
         \<or> (\<exists>eids eids'. original_edge_ids h = Some (Hetero eids)
               \<and> original_edge_ids h' = Some (Hetero eids')
               \<and> map fst eids' = map fst eids \<and> map_of eids' k = map_of eids k)))"
proof -
  have node_ids: "original_row_node_ids g' = original_row_node_ids g
      \<and> original_column_node_ids g' = original_column_node_ids g"
    if run: "exclude_edges g edges flag = Inr g'"
  proof (cases "sampled_csc g")
    case (Homo c)
    from run Homo obtain index where "slice_subgraph g (Homo (Some index)) = Inr g'"
      by (rule exclude_edges_homo_Inr)
    then show ?thesis by (simp add: slice_subgraph_Inr)
  next
    case (Hetero items)
    from run Hetero obtain index where "slice_subgraph g (Hetero index) = Inr g'"
      by (rule exclude_edges_hetero_Inr)
    then show ?thesis by (simp add: slice_subgraph_Inr)
  qed
  have relation: "(\<exists>items items'. sampled_csc h = Hetero items \<and> sampled_csc h' = Hetero items'
         \<and> map fst items' = map fst items \<and> map_of items' k = map_of items k)
      \<and> (original_edge_ids h = None \<and> original_edge_ids h' = None
         \<or> (\<exists>eids eids'. original_edge_ids h = Some (Hetero eids)
               \<and> original_edge_ids h' = Some (Hetero eids')
               \<and> map fst eids' = map fst eids \<and> map_of eids' k = map_of eids k))"
    if run: "exclude_edges h (Hetero d) hflag = Inr h'" and absent: "map_of d k = None"
  proof -
    from run obtain items where items: "sampled_csc h = Hetero items"
      by (cases "sampled_csc h") (auto simp: exclude_edges_def split: if_splits)
    from run items obtain d' index where "Hetero d = (Hetero d' :: edge_set homo_or_hetero)"
      and "index_of_relations h d' True items = Inr index"
      and s: "slice_subgraph h (Hetero index) = Inr h'"
      by (rule exclude_edges_hetero_Inr)
    then have idx: "index_of_relations h d True items = Inr index" by simp
    have entry: "map_of index k = None \<or> map_of index k = Some None"
      using index_of_relations_Inr [OF idx] absent by (rule index_absent)
    from slice_subgraph_Inr [OF s] have
      csc: "index_select_obj select_csc (Some (sampled_csc h)) (Hetero index)
          = Inr (Some (sampled_csc h'))"
      and ids: "index_select_obj getitem (original_edge_ids h) (Hetero index)
          = Inr (original_edge_ids h')"
      by simp_all
    from index_select_obj_hetero_Inr [OF csc [unfolded items]] obtain items' where
      items': "sampled_csc h' = Hetero items'"
      and sel: "index_select_items select_csc items index = Inr items'"
      by auto
    note sliced = index_select_items_Inr [OF sel]
    have csc_part: "\<exists>items items'. sampled_csc h = Hetero items \<and> sampled_csc h' = Hetero items'
           \<and> map fst items' = map fst items \<and> map_of items' k = map_of items k"
      using items items' item_sliced_keys [OF sliced] item_sliced_map_of [OF sliced entry]
      by blast
    from index_select_obj_edge_ids_hetero [OF ids]
    have "original_edge_ids h = None \<and> original_edge_ids h' = None
           \<or> (\<exists>eids eids'. original_edge_ids h = Some (Hetero eids)
                 \<and> original_edge_ids h' = Some (Hetero eids')
                 \<and> map fst eids' = map fst eids \<and> map_of eids' k = map_of eids k)"
    proof (elim disjE exE conjE)
      assume "original_edge_ids h = None" "original_edge_ids h' = None"
      then show ?thesis by simp
    next
      fix eids eids'
      assume e: "original_edge_ids h = Some (Hetero eids)"
        "original_edge_ids h' = Some (Hetero eids')"
        "index_select_items getitem eids index = Inr eids'"
      note sl = index_select_items_Inr [OF e(3)]
      from e(1,2) item_sliced_keys [OF sl] item_sliced_map_of [OF sl entry]
      show ?thesis by blast
    qed
    with csc_part show ?thesis by blast
  qed
  from node_ids relation show ?thesis by blast
qed

lemma example_two_relations_run:
  "exclude_edges example_two_relations (Hetero [(''A:relation:B'', example_edges)]) True
     = Inr example_two_relations_result"
  by code_simp

theorem exclude_edges_frame_witness:
  "exclude_edges example_two_relations (Hetero [(''A:relation:B'', example_edges)]) True
     = Inr example_two_relations_result
   \<and> map_of [(''A:relation:B'', example_edges)] ''B:follows:A'' = None
   \<and> original_row_node_ids example_two_relations_result
        = original_row_node_ids example_two_relations
   \<and> original_column_node_ids example_two_relations_result
        = original_column_node_ids example_two_relations
   \<and> (\<exists>items items'. sampled_csc example_two_relations = Hetero items
         \<and> sampled_csc example_two_relations_result = Hetero items'
         \<and> map_of items' ''B:follows:A'' = map_of items ''B:follows:A'')"
proof -
  have absent: "map_of [(''A:relation:B'', example_edges)] ''B:follows:A'' = None"
    by simp
  from exclude_edges_frame
    [of example_two_relations "Hetero [(''A:relation:B'', example_edges)]" True
      example_two_relations_result
      example_two_relations "[(''A:relation:B'', example_edges)]" True
      example_two_relations_result "''B:follows:A''"]
    example_two_relations_run absent
  show ?thesis by blast
qed

section \<open>Relation keys unknown to the subgraph\<close>

lemma index_of_relation_cong:
  "map_of d k = map_of d' k \<Longrightarrow> index_of_relation g d flag k c = index_of_relation g d' flag k c"
  by (simp add: index_of_relation_def)

lemma index_of_relations_cong:
  "\<forall>k \<in> set (map fst items). map_of d k = map_of d' k \<Longrightarrow>
     index_of_relations g d flag items = index_of_relations g d' flag items"
proof (induction items)
  case Nil
  then show ?case by simp
next
  case (Cons kc items)
  obtain k c where kc: "kc = (k, c)" by (cases kc)
  from Cons.prems have "map_of d k = map_of d' k" by (simp add: kc)
  then have "index_of_relation g d flag k c = index_of_relation g d' flag k c"
    by (rule index_of_relation_cong)
  moreover from Cons have "index_of_relations g d flag items = index_of_relations g d' flag items"
    by simp
  ultimately show ?case by (simp add: kc cong: sum.case_cong)
qed

text \<open>
  Claim C9. On a heterogeneous subgraph \<open>exclude_edges\<close> looks the exclusion set up at the
  relation keys of the subgraph only. Two exclusion sets that agree on these keys give
  the same outcome, result or exception; so the entries for relation keys that the
  subgraph does not have are ignored, with no error and no effect.
\<close>

theorem exclude_edges_ignores_unknown_relations:
  assumes "sampled_csc g = Hetero items"
    and "\<forall>k \<in> set (map fst items). map_of d k = map_of d' k"
  shows "exclude_edges g (Hetero d) flag = exclude_edges g (Hetero d') flag"
  using assms(1) index_of_relations_cong [OF assms(2)]
  by (simp add: exclude_edges_def)

theorem exclude_edges_ignores_unknown_relations_witness:
  "exclude_edges example_hetero
      (Hetero [(''X:unknown:Y'', EdgePair (IdTensor Int64 [13], IdTensor Int64 [10])), (''A:relation:B'', example_edges)]) True
     = Inr example_hetero_result"
proof -
  have "sampled_csc example_hetero = Hetero [(''A:relation:B'', example_csc)]"
    by (simp add: example_hetero_def)
  moreover have "\<forall>k \<in> set (map fst [(''A:relation:B'', example_csc)]).
      map_of [(''X:unknown:Y'', EdgePair (IdTensor Int64 [13], IdTensor Int64 [10])), (''A:relation:B'', example_edges)] k
      = map_of [(''A:relation:B'', example_edges)] k"
    by simp
  ultimately have "exclude_edges example_hetero
      (Hetero [(''X:unknown:Y'', EdgePair (IdTensor Int64 [13], IdTensor Int64 [10])), (''A:relation:B'', example_edges)]) True
     = exclude_edges example_hetero (Hetero [(''A:relation:B'', example_edges)]) True"
    by (rule exclude_edges_ignores_unknown_relations)
  then show ?thesis by (simp add: example_hetero_run)
qed

section \<open>Ids beyond 32 bits\<close>

lemma word_split32: "push_bit 32 (drop_bit 32 w) OR take_bit 32 w = (w :: 64 word)"
  by (rule bit_eqI) (auto simp: bit_simps)

text \<open>
  Every key of an \<open>int64\<close> source is the key of a pair of ids of 32 bits: its high and
  its low half.
\<close>

lemma pack_onto: "\<exists>s' d'. id32 s' \<and> id32 d' \<and> pack Int64 td s' d' = pack Int64 td s d"
proof -
  define w :: "64 word" where "w = push_bit 32 (word_of_int s) OR word_of_int d"
  define s' where "s' = uint (drop_bit 32 w)"
  define d' where "d' = uint (take_bit 32 w)"
  have "take_bit 64 (uint w) < 2 ^ 64"
    by (rule take_bit_int_less_exp)
  then have "drop_bit 32 (take_bit 64 (uint w)) < 2 ^ 32"
    by (simp add: drop_bit_eq_div)
  then have "id32 s'"
    by (simp add: s'_def id32_def unsigned_drop_bit_eq)
  moreover have "id32 d'"
    using take_bit_int_less_exp [of 32 "uint w"]
    by (simp add: d'_def id32_def unsigned_take_bit_eq)
  moreover have "pack Int64 td s' d' = pack Int64 td s d"
    by (simp add: pack_int64 s'_def d'_def word_split32 flip: w_def)
  ultimately show ?thesis by blast
qed

lemma pack_collides:
  assumes "\<not> id32 e"
  shows "\<exists>t' e'. (t', e') \<noteq> (t, e) \<and> pack ts te t' e' = pack ts te t e"
proof (cases ts)
  case Int32
  have "(t + 1, e) \<noteq> (t, e)" by simp
  moreover have "pack Int32 te (t + 1) e = pack Int32 te t e"
    by (simp add: pack_int32)
  ultimately show ?thesis unfolding Int32 by blast
next
  case Int64
  from pack_onto [of te t e] assms show ?thesis unfolding Int64 by auto
qed

text \<open>
  Claim C10. The packed key of \<open>int64\<close> sources tells two pairs apart when all four ids
  lie in \<open>[0, 2^32)\<close>, and only then: a pair whose destination is outside that range
  shares its key with another pair, one of ids within the range; with sources of any
  dtype it shares its key with another pair. With the flag true \<open>exclude_edges\<close> checks
  no id against the range: the destination \<open>2^32\<close> is outside it, the pairs \<open>(0, 2^32)\<close>
  and \<open>(1, 0)\<close> get the same key, and the subgraph whose only edge is \<open>0 \<rightarrow> 2^32\<close> loses
  that edge when the different pair \<open>1 \<rightarrow> 0\<close> is excluded; the call returns a result and
  raises nothing.
\<close>

theorem pack_collides_outside_32_bits:
  "(id32 s \<and> id32 d \<and> id32 s' \<and> id32 d' \<longrightarrow>
      (pack Int64 td s d = pack Int64 td' s' d') = (s = s' \<and> d = d'))
   \<and> (\<not> id32 e \<longrightarrow>
        (\<exists>t' e'. id32 t' \<and> id32 e' \<and> (t', e') \<noteq> (t, e)
           \<and> pack Int64 te t' e' = pack Int64 te t e))
   \<and> (\<not> id32 e \<longrightarrow> (\<exists>t' e'. (t', e') \<noteq> (t, e) \<and> pack ts te t' e' = pack ts te t e))
   \<and> \<not> id32 4294967296
   \<and> pack Int64 Int64 0 4294967296 = pack Int64 Int64 1 0
   \<and> to_reverse_ids \<lparr>indptr = [0, 1], indices = IdTensor Int64 [0]\<rparr> None
        (Some (Homo (IdTensor Int64 [4294967296])))
        = Inr (IdTensor Int64 [0], IdTensor Int64 [4294967296])
   \<and> (0, 4294967296) \<notin> set (zip [1] [0 :: int])
   \<and> exclude_edges example_wide (Homo (EdgePair (IdTensor Int64 [1], IdTensor Int64 [0]))) True
        = Inr example_wide_result"
proof -
  have "(pack Int64 td s d = pack Int64 td' s' d') = (s = s' \<and> d = d')"
    if "id32 s" "id32 d" "id32 s'" "id32 d'"
    using pack_inj [OF that] by (auto simp: pack_int64)
  moreover have "\<exists>t' e'. id32 t' \<and> id32 e' \<and> (t', e') \<noteq> (t, e)
      \<and> pack Int64 te t' e' = pack Int64 te t e" if "\<not> id32 e"
    using pack_onto [of te t e] that by auto
  moreover have "\<exists>t' e'. (t', e') \<noteq> (t, e) \<and> pack ts te t' e' = pack ts te t e"
    if "\<not> id32 e"
    using that by (rule pack_collides)
  moreover have "\<not> id32 4294967296"
    by (simp add: id32_def)
  moreover have "pack Int64 Int64 0 4294967296 = pack Int64 Int64 1 0"
    by (simp add: pack_int64)
  moreover have "to_reverse_ids \<lparr>indptr = [0, 1], indices = IdTensor Int64 [0]\<rparr> None
        (Some (Homo (IdTensor Int64 [4294967296])))
        = Inr (IdTensor Int64 [0], IdTensor Int64 [4294967296])"
    by code_simp
  moreover have
    "exclude_edges example_wide (Homo (EdgePair (IdTensor Int64 [1], IdTensor Int64 [0]))) True
        = Inr example_wide_result"
    by code_simp
  ultimately show ?thesis by simp
qed

theorem pack_collides_outside_32_bits_witness:
  "id32 14 \<and> id32 11 \<and> id32 15 \<and> id32 12
   \<and> pack Int64 Int64 14 11 \<noteq> pack Int64 Int64 15 12
   \<and> \<not> id32 4294967296
   \<and> (\<exists>t' e'. id32 t' \<and> id32 e' \<and> (t', e') \<noteq> (0, 4294967296)
         \<and> pack Int64 Int64 t' e' = pack Int64 Int64 0 4294967296)"
proof -
  have in_range: "id32 14 \<and> id32 11 \<and> id32 15 \<and> id32 12"
    and wide: "\<not> id32 4294967296"
    by (simp_all add: id32_def)
  note all = pack_collides_outside_32_bits
    [where s = 14 and d = 11 and s' = 15 and d' = 12 and td = Int64 and td' = Int64
       and e = 4294967296 and t = 0 and te = Int64 and ts = Int64]
  from all have inj: "id32 14 \<and> id32 11 \<and> id32 15 \<and> id32 12 \<longrightarrow>
      (pack Int64 Int64 14 11 = pack Int64 Int64 15 12) = (14 = (15 :: int) \<and> 11 = (12 :: int))"
    by (rule conjunct1)
  from all have coll: "\<not> id32 4294967296 \<longrightarrow>
      (\<exists>t' e'. id32 t' \<and> id32 e' \<and> (t', e') \<noteq> (0, 4294967296)
         \<and> pack Int64 Int64 t' e' = pack Int64 Int64 0 4294967296)"
    by (rule conjunct1 [OF conjunct2])
  from inj [THEN mp, OF in_range] have "pack Int64 Int64 14 11 \<noteq> pack Int64 Int64 15 12"
    by simp
  with coll [THEN mp, OF wide] in_range wide show ?thesis by blast
qed

section \<open>Exclusion sets that match nothing\<close>

lemma exclude_one_keys:
  "exclude_one r x True =
     (case shift_or (fst r) (snd r) of
        Inl e \<Rightarrow> Inl e
      | Inr val \<Rightarrow>
          (case exclusion_keys x of
             Inl e \<Rightarrow> Inl e
           | Inr keys \<Rightarrow> Inr (keep_positions val keys)))"
  by (cases x)
     (simp_all add: exclude_homo_edges_def exclude_homo_edges_2_def cong: sum.case_cong)

lemma keep_positions_all:
  assumes "list_all (\<lambda>key. key \<notin> set (vals val)) (vals keys)"
  shows "keep_positions val keys = all_positions (length (vals val))"
proof -
  have "filter (\<lambda>i. vals val ! i \<notin> set (vals keys)) [0..<length (vals val)]
      = [0..<length (vals val)]"
    using assms by (auto simp: filter_id_conv list_all_iff)
  then show ?thesis by (simp add: keep_positions_eq all_positions_def)
qed

lemma matches_nothing_index:
  assumes "matches_nothing c rm cm x"
  shows "\<exists>r. to_reverse_ids c rm cm = Inr r
     \<and> exclude_one r x True = Inr (all_positions (length (vals (indices c))))"
proof -
  from assms obtain r val keys where r: "to_reverse_ids c rm cm = Inr r"
    and val: "shift_or (fst r) (snd r) = Inr val"
    and k: "exclusion_keys x = Inr keys"
    and none: "list_all (\<lambda>key. key \<notin> set (vals val)) (vals keys)"
    by (auto simp: matches_nothing_def split: sum.splits)
  from to_reverse_ids_length [OF r] have len: "length (vals (fst r)) = length (vals (indices c))"
    "length (vals (snd r)) = length (vals (indices c))" by simp_all
  then have "length (vals val) = length (vals (indices c))"
    using val shift_or_same_length [of "fst r" "snd r"] by auto
  then have "exclude_one r x True = Inr (all_positions (length (vals (indices c))))"
    using keep_positions_all [OF none] by (simp add: exclude_one_keys val k)
  with r show ?thesis by blast
qed

lemma getitem_all_positions: "getitem xs (all_positions (length xs)) = Inr xs"
proof -
  have "list_all (\<lambda>i. 0 \<le> i \<and> i < int (length xs)) (all_positions (length xs))"
    by (auto simp: all_positions_def list_all_iff)
  then have "getitem xs (all_positions (length xs)) = Inr (gather xs (all_positions (length xs)))"
    by (rule getitem_positions)
  also have "gather xs (all_positions (length xs)) = xs"
    by (simp add: gather_def all_positions_def o_def map_nth)
  finally show ?thesis .
qed

lemma count_less_all_positions:
  assumes "0 \<le> p" "p \<le> int n"
  shows "int (count_less (all_positions n) p) = p"
proof -
  have "count_less (all_positions n) p = nat p"
    using assms by (intro count_less_split) (auto simp: all_positions_def)
  with assms(1) show ?thesis by simp
qed

lemma valid_csc_bounds:
  assumes "valid_csc c" "p \<in> set (indptr c)"
  shows "0 \<le> p \<and> p \<le> int (length (vals (indices c)))"
proof -
  from assms(1) have ne: "indptr c \<noteq> []" and srt: "sorted (indptr c)"
    and first: "hd (indptr c) = 0" and lst: "last (indptr c) = int (length (vals (indices c)))"
    by (auto simp: valid_csc_def)
  from assms(2) obtain i where i: "i < length (indptr c)" "p = indptr c ! i"
    by (auto simp: in_set_conv_nth)
  have "indptr c ! 0 \<le> indptr c ! i"
    using srt i(1) by (intro sorted_nth_mono) auto
  moreover have "indptr c ! i \<le> indptr c ! (length (indptr c) - 1)"
    using srt i(1) by (intro sorted_nth_mono) auto
  ultimately show ?thesis
    using ne first lst i(2) by (simp add: hd_conv_nth last_conv_nth)
qed

lemma positions_of_all_positions: "positions_of n (all_positions n)"
  by (auto simp: positions_of_def all_positions_def list_all_iff sorted_map
      intro!: sorted_wrt_mono_rel [of _ "(<)" "(\<le>)", OF _ sorted_wrt_upt])

lemma select_csc_all_positions:
  assumes "valid_csc c"
  shows "select_csc c (all_positions (length (vals (indices c)))) = Inr c"
proof -
  let ?all = "all_positions (length (vals (indices c)))"
  have "map (\<lambda>p. int (count_less ?all p)) (indptr c) = indptr c"
    using valid_csc_bounds [OF assms]
    by (intro map_idI) (simp add: count_less_all_positions)
  moreover have "gather (vals (indices c)) ?all = vals (indices c)"
    by (simp add: gather_def all_positions_def o_def map_nth)
  ultimately show ?thesis
    using select_csc_positions [OF positions_of_all_positions, of c]
    by (simp add: sliced_csc_def)
qed

lemma relation_unmatched_index:
  assumes "relation_unmatched h d k c"
  shows "\<exists>i. index_of_relation h d True k c = Inr i
     \<and> (\<forall>t. i = Some t \<longrightarrow> valid_csc c \<and> t = all_positions (length (vals (indices c))))"
proof (cases "map_of d k")
  case None
  then show ?thesis by (simp add: index_of_relation_def)
next
  case (Some x)
  with assms have valid: "valid_csc c"
    and rest: "(case etype_str_to_tuple k of
             Inl _ \<Rightarrow> False
           | Inr (src_type, _, dst_type) \<Rightarrow>
               (case ids_of_type (original_row_node_ids h) src_type of
                  Inl _ \<Rightarrow> False
                | Inr row_map \<Rightarrow>
                    (case ids_of_type (original_column_node_ids h) dst_type of
                       Inl _ \<Rightarrow> False
                     | Inr column_map \<Rightarrow>
                         matches_nothing c (map_option Homo row_map)
                           (map_option Homo column_map) x)))"
    by (simp_all add: relation_unmatched_def)
  from rest obtain s m t where ty: "etype_str_to_tuple k = Inr (s, m, t)"
    by (cases "etype_str_to_tuple k") auto
  from rest ty obtain rm where rm: "ids_of_type (original_row_node_ids h) s = Inr rm"
    by (cases "ids_of_type (original_row_node_ids h) s") auto
  from rest ty rm obtain cm where cm: "ids_of_type (original_column_node_ids h) t = Inr cm"
    by (cases "ids_of_type (original_column_node_ids h) t") auto
  from rest ty rm cm have none:
    "matches_nothing c (map_option Homo rm) (map_option Homo cm) x" by simp
  from matches_nothing_index [OF none] obtain r where
    "to_reverse_ids c (map_option Homo rm) (map_option Homo cm) = Inr r"
    "exclude_one r x True = Inr (all_positions (length (vals (indices c))))" by blast
  with Some ty rm cm valid show ?thesis
    by (simp add: index_of_relation_def)
qed

lemma index_of_relations_total:
  assumes "\<forall>kc \<in> set items. \<exists>i. index_of_relation h d flag (fst kc) (snd kc) = Inr i"
  shows "\<exists>index. index_of_relations h d flag items = Inr index"
  using assms
proof (induction items)
  case Nil
  then show ?case by simp
next
  case (Cons kc items)
  obtain k c where kc: "kc = (k, c)" by (cases kc)
  from Cons.prems obtain i where "index_of_relation h d flag k c = Inr i"
    by (auto simp: kc)
  moreover from Cons obtain index where "index_of_relations h d flag items = Inr index"
    by auto
  ultimately show ?case by (simp add: kc)
qed

lemma index_select_items_unchanged:
  assumes "\<forall>kv \<in> set items. \<exists>i. map_of index (fst kv) = Some i
     \<and> (\<forall>t. i = Some t \<longrightarrow> leaf (snd kv) t = Inr (snd kv))"
  shows "index_select_items leaf items index = Inr items"
  using assms
proof (induction items)
  case Nil
  then show ?case by simp
next
  case (Cons kv items)
  obtain k v where kv: "kv = (k, v)" by (cases kv)
  from Cons.prems obtain i where i: "map_of index k = Some i"
    "\<forall>t. i = Some t \<longrightarrow> leaf v t = Inr v"
    by (auto simp: kv)
  then have "(case i of None \<Rightarrow> Inr v | Some t \<Rightarrow> leaf v t) = Inr v"
    by (cases i) auto
  moreover from Cons have "index_select_items leaf items index = Inr items"
    by simp
  ultimately show ?case using i(1) by (simp add: kv)
qed

lemma slice_subgraph_homo_all:
  assumes "sampled_csc g = Homo c" "valid_csc c" "edge_ids_aligned g"
  shows "slice_subgraph g (Homo (Some (all_positions (length (vals (indices c)))))) = Inr g"
proof -
  let ?all = "all_positions (length (vals (indices c)))"
  have csc: "index_select_obj select_csc (Some (sampled_csc g)) (Homo (Some ?all))
      = Inr (Some (sampled_csc g))"
    using assms(1,2) by (simp add: select_csc_all_positions)
  have ids: "index_select_obj getitem (original_edge_ids g) (Homo (Some ?all))
      = Inr (original_edge_ids g)"
  proof (cases "original_edge_ids g")
    case None
    then show ?thesis by simp
  next
    case (Some f)
    show ?thesis
    proof (cases f)
      case (Homo e)
      with Some assms(1,3) have "length e = length (vals (indices c))"
        by (simp add: edge_ids_aligned_def)
      with Some Homo getitem_all_positions [of e] show ?thesis by simp
    next
      case (Hetero eids)
      with Some assms(1,3) show ?thesis by (simp add: edge_ids_aligned_def)
    qed
  qed
  show ?thesis by (simp add: slice_subgraph_def csc ids)
qed

lemma exclude_edges_homo_no_match:
  assumes "sampled_csc g = Homo c" "valid_csc c" "edge_ids_aligned g"
    and "matches_nothing c (original_row_node_ids g) (original_column_node_ids g) x"
  shows "exclude_edges g (Homo x) True = Inr g"
proof -
  from matches_nothing_index [OF assms(4)] obtain r where
    "to_reverse_ids c (original_row_node_ids g) (original_column_node_ids g) = Inr r"
    "exclude_one r x True = Inr (all_positions (length (vals (indices c))))" by blast
  with assms(1) slice_subgraph_homo_all [OF assms(1-3)] show ?thesis
    by (simp add: exclude_edges_def)
qed

lemma exclude_edges_hetero_no_match:
  assumes "sampled_csc h = Hetero items" "distinct (map fst items)" "edge_ids_aligned h"
    and "list_all (\<lambda>(k, c). relation_unmatched h d k c) items"
  shows "exclude_edges h (Hetero d) True = Inr h"
proof -
  have unmatched: "relation_unmatched h d k c" if "(k, c) \<in> set items" for k c
    using assms(4) that by (auto simp: list_all_iff)
  have "\<forall>kc \<in> set items. \<exists>i. index_of_relation h d True (fst kc) (snd kc) = Inr i"
    using unmatched relation_unmatched_index by fastforce
  then obtain index where idx: "index_of_relations h d True items = Inr index"
    using index_of_relations_total by blast
  have entry: "\<exists>i. map_of index k = Some i
      \<and> (\<forall>t. i = Some t \<longrightarrow> valid_csc c \<and> t = all_positions (length (vals (indices c))))"
    if mem: "(k, c) \<in> set items" for k c
  proof -
    from map_of_list_all2 [OF index_of_relations_Inr [OF idx] assms(2) mem]
    obtain i where i: "map_of index k = Some i" "index_of_relation h d True k c = Inr i"
      by blast
    from relation_unmatched_index [OF unmatched [OF mem]] i(2)
    have "\<forall>t. i = Some t \<longrightarrow> valid_csc c \<and> t = all_positions (length (vals (indices c)))"
      by auto
    with i(1) show ?thesis by blast
  qed
  have "\<forall>kv \<in> set items. \<exists>i. map_of index (fst kv) = Some i
      \<and> (\<forall>t. i = Some t \<longrightarrow> select_csc (snd kv) t = Inr (snd kv))"
  proof
    fix kv assume "kv \<in> set items"
    then have "(fst kv, snd kv) \<in> set items" by simp
    from entry [OF this] show "\<exists>i. map_of index (fst kv) = Some i
        \<and> (\<forall>t. i = Some t \<longrightarrow> select_csc (snd kv) t = Inr (snd kv))"
      by (auto simp: select_csc_all_positions)
  qed
  then have sel: "index_select_items select_csc items index = Inr items"
    by (rule index_select_items_unchanged)
  have ids: "index_select_obj getitem (original_edge_ids h) (Hetero index)
      = Inr (original_edge_ids h)"
  proof (cases "original_edge_ids h")
    case None
    then show ?thesis by simp
  next
    case (Some f)
    show ?thesis
    proof (cases f)
      case (Homo e)
      with Some assms(1,3) show ?thesis by (simp add: edge_ids_aligned_def)
    next
      case (Hetero eids)
      have "\<forall>ke \<in> set eids. \<exists>i. map_of index (fst ke) = Some i
          \<and> (\<forall>t. i = Some t \<longrightarrow> getitem (snd ke) t = Inr (snd ke))"
      proof
        fix ke assume "ke \<in> set eids"
        with Some Hetero assms(1,3) obtain c where c: "map_of items (fst ke) = Some c"
          "length (snd ke) = length (vals (indices c))"
          by (auto simp: edge_ids_aligned_def list_all_iff split: option.splits)
        from c(1) have "(fst ke, c) \<in> set items" by (rule map_of_SomeD)
        from entry [OF this] c(2) show "\<exists>i. map_of index (fst ke) = Some i
            \<and> (\<forall>t. i = Some t \<longrightarrow> getitem (snd ke) t = Inr (snd ke))"
          using getitem_all_positions [of "snd ke"] by auto
      qed
      then have "index_select_items getitem eids index = Inr eids"
        by (rule index_select_items_unchanged)
      with Some Hetero show ?thesis by simp
    qed
  qed
  have "slice_subgraph h (Hetero index) = Inr h"
    using assms(1) by (simp add: slice_subgraph_def sel ids)
  with assms(1) idx show ?thesis by (simp add: exclude_edges_def)
qed

text \<open>
  Claim C5. \<open>exclude_edges\<close> returns the subgraph itself (same \<open>indptr\<close>, \<open>indices\<close>, edge
  ids and id maps, for every relation) when no key of the exclusion set is the key of a
  sampled edge; the empty exclusion set is the first case of this. The subgraph is
  well formed: its structures are valid, its edge ids are aligned and its ids resolve.
  On a heterogeneous subgraph this holds relation by relation, a relation that the
  exclusion set does not name being left whole in any case.
\<close>

theorem exclude_edges_no_match:
  "(sampled_csc g = Homo c \<and> valid_csc c \<and> edge_ids_aligned g
      \<and> matches_nothing c (original_row_node_ids g) (original_column_node_ids g) x
    \<longrightarrow> exclude_edges g (Homo x) True = Inr g)
   \<and> (sampled_csc h = Hetero items \<and> distinct (map fst items) \<and> edge_ids_aligned h
      \<and> list_all (\<lambda>(k, c). relation_unmatched h d k c) items
    \<longrightarrow> exclude_edges h (Hetero d) True = Inr h)"
  using exclude_edges_homo_no_match exclude_edges_hetero_no_match by blast

theorem exclude_edges_no_match_witness:
  "matches_nothing example_csc (Some (Homo example_rows)) (Some (Homo example_columns))
      (EdgePair (IdTensor Int64 [999], IdTensor Int64 [999]))
   \<and> exclude_edges example_homo (Homo (EdgePair (IdTensor Int64 [999], IdTensor Int64 [999])))
        True = Inr example_homo
   \<and> exclude_edges example_homo (Homo (EdgePair (IdTensor Int64 [], IdTensor Int64 []))) True
        = Inr example_homo
   \<and> list_all (\<lambda>(k, c). relation_unmatched example_two_relations
                  [(''A:relation:B'', EdgePair (IdTensor Int64 [999], IdTensor Int64 [999]))]
                  k c)
        [(''A:relation:B'', example_csc), (''B:follows:A'', example_other_csc)]
   \<and> exclude_edges example_two_relations
        (Hetero [(''A:relation:B'', EdgePair (IdTensor Int64 [999], IdTensor Int64 [999]))])
        True = Inr example_two_relations
   \<and> exclude_edges example_two_relations (Hetero []) True = Inr example_two_relations"
proof -
  let ?far = "EdgePair (IdTensor Int64 [999], IdTensor Int64 [999])"
  let ?none = "EdgePair (IdTensor Int64 [], IdTensor Int64 [])"
  have homo: "sampled_csc example_homo = Homo example_csc"
    by (simp add: example_homo_def)
  have valid: "valid_csc example_csc"
    by (simp add: valid_csc_def example_csc_def)
  have aligned: "edge_ids_aligned example_homo"
    by (simp add: edge_ids_aligned_def example_homo_def example_csc_def)
  have rows: "original_row_node_ids example_homo = Some (Homo example_rows)"
    and cols: "original_column_node_ids example_homo = Some (Homo example_columns)"
    by (simp_all add: example_homo_def example_rows_def example_columns_def)
  have absent: "matches_nothing example_csc (Some (Homo example_rows))
      (Some (Homo example_columns)) ?far"
    by code_simp
  have empty: "matches_nothing example_csc (Some (Homo example_rows))
      (Some (Homo example_columns)) ?none"
    by code_simp
  have hetero: "sampled_csc example_two_relations
      = Hetero [(''A:relation:B'', example_csc), (''B:follows:A'', example_other_csc)]"
    by (simp add: example_two_relations_def)
  have keys: "distinct (map fst [(''A:relation:B'', example_csc),
      (''B:follows:A'', example_other_csc)])"
    by simp
  have aligned2: "edge_ids_aligned example_two_relations"
    by code_simp
  have absent2: "list_all (\<lambda>(k, c). relation_unmatched example_two_relations
                  [(''A:relation:B'', ?far)] k c)
        [(''A:relation:B'', example_csc), (''B:follows:A'', example_other_csc)]"
    by code_simp
  have empty2: "list_all (\<lambda>(k, c). relation_unmatched example_two_relations [] k c)
        [(''A:relation:B'', example_csc), (''B:follows:A'', example_other_csc)]"
    by (simp add: relation_unmatched_def)
  from exclude_edges_no_match
    [of example_homo example_csc ?far example_two_relations
      "[(''A:relation:B'', example_csc), (''B:follows:A'', example_other_csc)]"
      "[(''A:relation:B'', ?far)]"]
    homo valid aligned rows cols absent hetero keys aligned2 absent2
  have one: "exclude_edges example_homo (Homo ?far) True = Inr example_homo"
    "exclude_edges example_two_relations (Hetero [(''A:relation:B'', ?far)]) True
       = Inr example_two_relations"
    by simp_all
  from exclude_edges_no_match
    [of example_homo example_csc ?none example_two_relations
      "[(''A:relation:B'', example_csc), (''B:follows:A'', example_other_csc)]" "[]"]
    homo valid aligned rows cols empty hetero keys aligned2 empty2
  have two: "exclude_edges example_homo (Homo ?none) True = Inr example_homo"
    "exclude_edges example_two_relations (Hetero []) True = Inr example_two_relations"
    by simp_all
  from absent absent2 one two show ?thesis by blast
qed

end
